theory Spec2Isabelle
  imports
    Main
    "HOL-Library.Char_ord"
    "HOL-Library.List_Lexorder"
    "HOL-Library.Product_Lexorder"
    "HOL-Library.Sublist"
    "HOL-Library.AList"
    "HOL-Library.Multiset"
begin

section \<open>Python values and strings\<close>

text \<open>
  Strings are byte lists. The string methods the source uses are written out for ASCII:
  \<^verbatim>\<open>str.lower\<close> maps \<^verbatim>\<open>A-Z\<close> to \<^verbatim>\<open>a-z\<close> and leaves every other byte alone,
  \<^verbatim>\<open>str.strip\<close> removes the ASCII white space of \<^verbatim>\<open>str.isspace\<close> from both ends.
  \<^verbatim>\<open>s.startswith(p)\<close> is \<^term>\<open>prefix p s\<close>, \<^verbatim>\<open>s.endswith(p)\<close> is \<^term>\<open>suffix p s\<close>
  and \<^verbatim>\<open>p in s\<close> is \<^term>\<open>sublist p s\<close>.
\<close>

definition is_upper :: "char \<Rightarrow> bool" where
  "is_upper c \<longleftrightarrow> CHR ''A'' \<le> c \<and> c \<le> CHR ''Z''"

definition is_lower :: "char \<Rightarrow> bool" where
  "is_lower c \<longleftrightarrow> CHR ''a'' \<le> c \<and> c \<le> CHR ''z''"

definition is_digit :: "char \<Rightarrow> bool" where
  "is_digit c \<longleftrightarrow> CHR ''0'' \<le> c \<and> c \<le> CHR ''9''"

definition is_space :: "char \<Rightarrow> bool" where
  "is_space c \<longleftrightarrow> c = CHR '' '' \<or> (9 \<le> (of_char c :: nat) \<and> (of_char c :: nat) \<le> 13)
     \<or> (28 \<le> (of_char c :: nat) \<and> (of_char c :: nat) \<le> 31)"

definition lower_char :: "char \<Rightarrow> char" where
  "lower_char c = (if is_upper c then char_of (of_char c + (32 :: nat)) else c)"

definition lower :: "string \<Rightarrow> string" where
  "lower s = map lower_char s"

definition strip :: "string \<Rightarrow> string" where
  "strip s = rev (dropWhile is_space (rev (dropWhile is_space s)))"

text \<open>\<^verbatim>\<open>s.split(c)\<close> for a one-character separator: never the empty list.\<close>

fun split_on :: "char \<Rightarrow> string \<Rightarrow> string list" where
  "split_on c [] = [Nil]"
| "split_on c (x # xs) =
     (if x = c then [] # split_on c xs
      else (case split_on c xs of [] \<Rightarrow> [x # Nil] | w # ws \<Rightarrow> (x # w) # ws))"

text \<open>\<^verbatim>\<open>s.split()\<close>: the maximal runs of characters that are not white space.\<close>

function split_whitespace :: "string \<Rightarrow> string list" where
  "split_whitespace s =
     (let t = dropWhile is_space s
      in if t = [] then []
         else takeWhile (\<lambda>c. \<not> is_space c) t # split_whitespace (dropWhile (\<lambda>c. \<not> is_space c) t))"
  by pat_completeness auto
termination
proof (relation "measure length")
  fix s t :: string
  assume t: "t = dropWhile is_space s" and ne: "t \<noteq> []"
  have "length (dropWhile (\<lambda>c. \<not> is_space c) t) < length t"
  proof (cases t)
    case Nil
    with ne show ?thesis by simp
  next
    case (Cons c cs)
    with t have "\<not> is_space c" by (metis hd_dropWhile list.sel(1) list.distinct(1))
    with Cons have "length (dropWhile (\<lambda>c. \<not> is_space c) t) \<le> length cs"
      by (simp add: length_dropWhile_le)
    with Cons show ?thesis by simp
  qed
  also have "length t \<le> length s" using t by (simp add: length_dropWhile_le)
  finally show "(dropWhile (\<lambda>c. \<not> is_space c) t, s) \<in> measure length" by simp
qed simp

text \<open>\<^verbatim>\<open>re.sub('^' + p, '', s)\<close> for a literal \<open>p\<close>.\<close>

definition remove_prefix :: "string \<Rightarrow> string \<Rightarrow> string" where
  "remove_prefix p s = (if prefix p s then drop (length p) s else s)"

text \<open>
  The values a scraped record holds: strings, \<^verbatim>\<open>None\<close>, the list of e-mail addresses and
  the two nested mappings; \<open>PInt\<close> stands for whatever else a caller may have stored.
  A record is a Python \<^verbatim>\<open>dict\<close>, kept in insertion order; \<^verbatim>\<open>d[k] = v\<close> is
  \<^term>\<open>AList.update k v d\<close>.
\<close>

datatype pyval =
    PNone
  | PStr string
  | PInt int
  | PList "string list"
  | PDict "(string \<times> string) list"

type_synonym pydict = "(string \<times> pyval) list"

fun truthy :: "pyval \<Rightarrow> bool" where
  "truthy PNone = False"
| "truthy (PStr s) = (s \<noteq> [])"
| "truthy (PInt i) = (i \<noteq> 0)"
| "truthy (PList xs) = (xs \<noteq> [])"
| "truthy (PDict kvs) = (kvs \<noteq> [])"

text \<open>\<^verbatim>\<open>d.get(k)\<close> and \<^verbatim>\<open>d.get(k, default)\<close>.\<close>

definition dict_get :: "pydict \<Rightarrow> string \<Rightarrow> pyval \<Rightarrow> pyval" where
  "dict_get d k dflt = (case map_of d k of None \<Rightarrow> dflt | Some v \<Rightarrow> v)"

text \<open>The Python exceptions that e-mail discovery can raise by itself.\<close>

datatype error = AttributeError | TypeError | UnboundLocalError

section \<open>Session Manager: \<^verbatim>\<open>GoogleMapsScraper.setup_driver\<close>\<close>

text \<open>
  The ways \<^verbatim>\<open>setup_driver\<close> launches a browser session: ChromeDriver fetched for the
  major version of the local Chrome, ChromeDriver fetched by \<^verbatim>\<open>ChromeDriverManager()\<close>,
  the driver Selenium finds by itself, and the same with \<^verbatim>\<open>binary_location\<close> set to the
  local Chrome.
\<close>

datatype strategy = VersionMatched | DefaultFetch | BuiltIn | ExplicitBinary

text \<open>
  What the machine offers. \<open>win_chrome\<close> is the test \<^verbatim>\<open>chrome_path and os.name == 'nt'\<close>;
  \<open>version_text\<close> is the stripped output of \<^verbatim>\<open>chrome --version\<close>, or \<open>None\<close> when
  running it raises; \<open>launch\<close> gives, for each strategy, the session it starts or the text
  of the exception it raises.
\<close>

record environment =
  win_chrome :: bool
  version_text :: "string option"
  launch :: "strategy \<Rightarrow> string + nat"

datatype attempt_result = Returned nat | Initialized nat | Raises string

definition default_fetch :: "environment \<Rightarrow> strategy list \<times> attempt_result" where
  "default_fetch env =
     ([DefaultFetch],
      case launch env DefaultFetch of Inl e \<Rightarrow> Raises e | Inr d \<Rightarrow> Initialized d)"

text \<open>
  The first attempt: with a local Chrome whose version text has at least three words, the
  version-matched driver is tried and, when it starts, \<^verbatim>\<open>setup_driver\<close> returns at once;
  any exception on that path is logged and the default fetch follows.
\<close>

definition first_attempt :: "environment \<Rightarrow> strategy list \<times> attempt_result" where
  "first_attempt env =
     (if win_chrome env then
        (case version_text env of
           None \<Rightarrow> default_fetch env
         | Some text \<Rightarrow>
             if text \<noteq> [] \<and> length (split_on CHR '' '' text) \<ge> 3 then
               (case launch env VersionMatched of
                  Inr d \<Rightarrow> ([VersionMatched], Returned d)
                | Inl e \<Rightarrow> (VersionMatched # fst (default_fetch env), snd (default_fetch env)))
             else default_fetch env)
      else default_fetch env)"

definition attempt ::
  "environment \<Rightarrow> nat \<Rightarrow> string option \<Rightarrow> strategy list \<times> attempt_result" where
  "attempt env attempts last_error =
     (if attempts = 1 then first_attempt env
      else if attempts = 2 then
        ([BuiltIn], case launch env BuiltIn of Inl e \<Rightarrow> Raises e | Inr d \<Rightarrow> Initialized d)
      else if win_chrome env then
        ([ExplicitBinary],
         case launch env ExplicitBinary of Inl e \<Rightarrow> Raises e | Inr d \<Rightarrow> Initialized d)
      else
        ([], Raises (case last_error of
                       Some e \<Rightarrow> e
                     | None \<Rightarrow> ''Failed to initialize ChromeDriver after multiple attempts'')))"

text \<open>
  The retry loop. \<open>launches\<close> and \<open>sleeps\<close> are not variables of the source: they record
  the strategies launched, in order, and the number of calls of \<^verbatim>\<open>time.sleep(1)\<close>.
  \<open>has_wait\<close> tells whether \<^verbatim>\<open>self.wait\<close> has been set.
\<close>

record session =
  driver :: "nat option"
  has_wait :: bool
  attempts :: nat
  last_error :: "string option"
  launches :: "strategy list"
  sleeps :: nat

definition max_attempts :: nat where
  "max_attempts = 3"

function setup_loop :: "environment \<Rightarrow> session \<Rightarrow> bool \<times> session" where
  "setup_loop env s =
     (if attempts s < max_attempts then
        (let n = Suc (attempts s);
             (tried, r) = attempt env n (last_error s);
             s1 = s\<lparr>attempts := n, launches := launches s @ tried\<rparr>
         in case r of
              Returned d \<Rightarrow> (True, s1\<lparr>driver := Some d\<rparr>)
            | Initialized d \<Rightarrow> (False, s1\<lparr>driver := Some d\<rparr>)
            | Raises e \<Rightarrow> setup_loop env (s1\<lparr>last_error := Some e, sleeps := Suc (sleeps s1)\<rparr>))
      else (False, s))"
  by pat_completeness auto
termination
  by (relation "measure (\<lambda>(env, s). max_attempts - attempts s)") (auto simp: max_attempts_def)

definition compatibility_message :: string where
  "compatibility_message =
     ''ChromeDriver compatibility issue. Please ensure you have the latest Google Chrome '' @
     ''installed and try again. This error typically occurs when there's a mismatch between '' @
     ''ChromeDriver and Chrome versions.''"

text \<open>
  \<^verbatim>\<open>setup_driver\<close>: the state the loop leaves, and either nothing or the message of the
  \<^verbatim>\<open>Exception\<close> raised when no session was started. The first component of the loop's
  result tells that the function has returned from inside the loop.
\<close>

definition setup_driver :: "environment \<Rightarrow> string option \<times> session" where
  "setup_driver env =
     (case setup_loop env \<lparr>driver = None, has_wait = False, attempts = 0, last_error = None,
                            launches = [], sleeps = 0\<rparr> of
        (True, s) \<Rightarrow> (None, s)
      | (False, s) \<Rightarrow>
          (case driver s of
             None \<Rightarrow>
               (let text = (case last_error s of None \<Rightarrow> ''None'' | Some e \<Rightarrow> e);
                    error_msg = ''Failed to initialize ChromeDriver: '' @ text
                in (Some (if sublist ''not a valid Win32 application'' text
                          then compatibility_message else error_msg), s))
           | Some d \<Rightarrow> (None, s\<lparr>has_wait := True\<rparr>)))"

section \<open>Result Pager: \<^verbatim>\<open>GoogleMapsScraper.scroll_results\<close>\<close>

text \<open>
  The browser is outside the program. What \<^verbatim>\<open>scroll_results\<close> sees of it at one moment is
  an observation: either some driver call of that phase raised, or, for every CSS selector,
  the number of elements \<^verbatim>\<open>find_elements\<close> returns. The observations are indexed by the
  scroll attempt: index 0 is the page before any scroll, index k the page after the k-th scroll.
\<close>

datatype observation = Raised | Visible "string \<Rightarrow> nat"

definition business_selectors :: "string list" where
  "business_selectors =
     [''div[role='article']'', ''.section-result'', ''.place-result'', ''a[href*='maps/place']'']"

text \<open>
  \<^verbatim>\<open>for selector in business_selectors: elements = find_elements(selector);
  if elements: business_elements = elements; break\<close> followed by
  \<^verbatim>\<open>len(business_elements)\<close>: the size of the first non-empty match; when every selector
  matches nothing, \<^verbatim>\<open>business_elements\<close> keeps its old value, of size \<open>kept\<close>.
\<close>

fun count_business_elements :: "(string \<Rightarrow> nat) \<Rightarrow> string list \<Rightarrow> nat \<Rightarrow> nat" where
  "count_business_elements found [] kept = kept"
| "count_business_elements found (selector # selectors) kept =
     (if found selector \<noteq> 0 then found selector
      else count_business_elements found selectors kept)"

text \<open>
  The loop variables. \<open>history\<close> is not a variable of the source: it records every value
  \<^verbatim>\<open>current_results_count\<close> has taken, oldest first, so that statements about the
  sequence of counts can be made.
\<close>

record pager =
  prev_results_count :: nat
  current_results_count :: nat
  scroll_attempts :: nat
  history :: "nat list"

definition max_scroll_attempts :: nat where
  "max_scroll_attempts = 10"

text \<open>
  The \<^verbatim>\<open>while\<close> loop. Its result is the state in which it ends: \<open>Inr\<close> when the
  condition has become false, \<open>Inl\<close> when a driver call of the attempt raised (the
  attempt is counted before the first driver call).
\<close>

function scroll_loop :: "(nat \<Rightarrow> observation) \<Rightarrow> int \<Rightarrow> pager \<Rightarrow> pager + pager" where
  "scroll_loop observe max_results s =
     (if int (current_results_count s) < max_results
         \<and> current_results_count s > prev_results_count s
         \<and> scroll_attempts s < max_scroll_attempts
      then
        (case observe (Suc (scroll_attempts s)) of
           Raised \<Rightarrow> Inl (s\<lparr>scroll_attempts := Suc (scroll_attempts s)\<rparr>)
         | Visible found \<Rightarrow>
             (let n = count_business_elements found business_selectors (current_results_count s)
              in scroll_loop observe max_results
                   \<lparr>prev_results_count = current_results_count s,
                    current_results_count = n,
                    scroll_attempts = Suc (scroll_attempts s),
                    history = history s @ [n]\<rparr>))
      else Inr s)"
  by pat_completeness auto
termination
  by (relation "measure (\<lambda>(observe, max_results, s). max_scroll_attempts - scroll_attempts s)") auto

text \<open>
  The state on entry to the loop: \<^verbatim>\<open>prev_results_count = 0\<close>, the first count taken with
  \<^verbatim>\<open>business_elements = []\<close>, no scroll attempt made.
\<close>

definition initial_pager :: "(string \<Rightarrow> nat) \<Rightarrow> pager" where
  "initial_pager found =
     (let n = count_business_elements found business_selectors 0
      in \<lparr>prev_results_count = 0, current_results_count = n, scroll_attempts = 0,
          history = [n]\<rparr>)"

text \<open>
  The whole \<^verbatim>\<open>try\<close>: the search for the container and the first count, then the loop.
  When a driver call raises before the loop, no loop variable has been counted yet.
\<close>

definition scroll_run :: "(nat \<Rightarrow> observation) \<Rightarrow> int \<Rightarrow> pager + pager" where
  "scroll_run observe max_results =
     (case observe 0 of
        Raised \<Rightarrow>
          Inl \<lparr>prev_results_count = 0, current_results_count = 0, scroll_attempts = 0,
               history = []\<rparr>
      | Visible found \<Rightarrow> scroll_loop observe max_results (initial_pager found))"

text \<open>
  Besides the observations, two more driver calls decide what \<^verbatim>\<open>scroll_results\<close> does:
  the screenshot taken after the loop, still inside the \<^verbatim>\<open>try\<close>, and the screenshot each
  \<^verbatim>\<open>except\<close> clause takes before it returns 0. Either may raise.
\<close>

record browser =
  observations :: "nat \<Rightarrow> observation"
  after_scrolling_shot_raises :: bool
  error_shot_raises :: bool

text \<open>What a call of \<^verbatim>\<open>scroll_results\<close> ends in: a value returned, or an exception that leaves it.\<close>

datatype scroll_result = Returns nat | Propagates

text \<open>
  Both \<^verbatim>\<open>except\<close> clauses: log, take a screenshot, \<^verbatim>\<open>return 0\<close>. An exception of the
  screenshot is not caught by anything.
\<close>

definition handle_error :: "browser \<Rightarrow> scroll_result" where
  "handle_error b = (if error_shot_raises b then Propagates else Returns 0)"

text \<open>
  \<^verbatim>\<open>scroll_results\<close>: after the loop the screenshot, then \<^verbatim>\<open>return current_results_count\<close>;
  every exception raised inside the \<^verbatim>\<open>try\<close> goes to an \<^verbatim>\<open>except\<close> clause.
\<close>

definition scroll_results :: "browser \<Rightarrow> int \<Rightarrow> scroll_result" where
  "scroll_results b max_results =
     (case scroll_run (observations b) max_results of
        Inl s \<Rightarrow> handle_error b
      | Inr s \<Rightarrow>
          if after_scrolling_shot_raises b then handle_error b
          else Returns (current_results_count s))"

text \<open>
  A page that first shows five result cards and, after the first scroll, three, in a
  browser whose screenshots succeed.
\<close>

definition shrinking_dom :: "nat \<Rightarrow> observation" where
  "shrinking_dom k =
     Visible (\<lambda>selector. if selector = ''div[role='article']'' then (if k = 0 then 5 else 3) else 0)"

definition shrinking_browser :: browser where
  "shrinking_browser =
     \<lparr>observations = shrinking_dom, after_scrolling_shot_raises = False, error_shot_raises = False\<rparr>"

section \<open>Detail Extractor: \<^verbatim>\<open>GoogleMapsScraper.extract_business_data\<close>\<close>

text \<open>
  The page as the extractor reads it. \<^verbatim>\<open>find_element\<close> gives, for a CSS selector, the
  first matching element, raises \<^verbatim>\<open>NoSuchElementException\<close>, or raises something else
  (\<open>Broken\<close>, with the text of the exception). An element has its text and its attributes;
  \<^verbatim>\<open>get_attribute\<close> of an absent attribute is \<^verbatim>\<open>None\<close>.
\<close>

record element =
  elem_text :: string
  elem_attrs :: "(string \<times> string) list"

datatype lookup = NoSuchElement | Broken string | Element element

definition get_attribute :: "element \<Rightarrow> string \<Rightarrow> string option" where
  "get_attribute el name = map_of (elem_attrs el) name"

text \<open>
  A button that may disclose the opening hours: what clicking it raises, the texts of the
  grid cells found after the click, and what the click that closes the panel raises.
\<close>

record hours_button =
  click_error :: "string option"
  cell_texts :: "string list"
  close_error :: "string option"

text \<open>
  \<open>load_error\<close> is the exception of \<^verbatim>\<open>driver.get\<close> or of the screenshot, if any;
  \<open>hours_buttons\<close> is \<open>None\<close> when looking for the buttons raises. The wait for a name
  element, whose every exception is caught, leaves no trace in the result and is omitted.
\<close>

record detail_page =
  load_error :: "string option"
  find_element :: "string \<Rightarrow> lookup"
  hours_buttons :: "hours_button list option"

text \<open>\<^verbatim>\<open>s.replace(pat, '')\<close> and \<^verbatim>\<open>s.split(pat)\<close> for a non-empty \<open>pat\<close>.\<close>

function remove_all :: "string \<Rightarrow> string \<Rightarrow> string" where
  "remove_all pat [] = []"
| "remove_all pat (c # cs) =
     (if pat \<noteq> [] \<and> prefix pat (c # cs) then remove_all pat (drop (length pat) (c # cs))
      else c # remove_all pat cs)"
  by pat_completeness auto
termination
  by (relation "measure (\<lambda>(pat, s). length s)") auto

function split_str :: "string \<Rightarrow> string \<Rightarrow> string list" where
  "split_str pat [] = [Nil]"
| "split_str pat (c # cs) =
     (if pat \<noteq> [] \<and> prefix pat (c # cs) then [] # split_str pat (drop (length pat) (c # cs))
      else (case split_str pat cs of [] \<Rightarrow> [c # Nil] | w # ws \<Rightarrow> (c # w) # ws))"
  by pat_completeness auto
termination
  by (relation "measure (\<lambda>(pat, s). length s)") auto

text \<open>
  \<^verbatim>\<open>re.search(r'(\d+\.\d+)', s)\<close>: at the leftmost position where it is possible, a
  maximal run of digits, a point, and a maximal run of digits. \<^verbatim>\<open>re.search(r'(\d+)', s)\<close>:
  the first maximal run of digits. The digits are the ASCII digits, which are what
  \<^verbatim>\<open>\d\<close> matches in an ASCII text; in other texts Python's \<^verbatim>\<open>\d\<close> matches further
  decimal digits, so these functions follow the source on ASCII texts only.
\<close>

definition match_decimal :: "string \<Rightarrow> string option" where
  "match_decimal s =
     (let whole = takeWhile is_digit s; rest = dropWhile is_digit s
      in if whole = [] then None
         else (case rest of
                 [] \<Rightarrow> None
               | c # after \<Rightarrow>
                   if c = CHR ''.'' \<and> takeWhile is_digit after \<noteq> []
                   then Some (whole @ CHR ''.'' # takeWhile is_digit after)
                   else None))"

fun search_decimal :: "string \<Rightarrow> string option" where
  "search_decimal [] = None"
| "search_decimal (c # cs) =
     (case match_decimal (c # cs) of Some m \<Rightarrow> Some m | None \<Rightarrow> search_decimal cs)"

definition search_digits :: "string \<Rightarrow> string option" where
  "search_digits s =
     (let m = takeWhile is_digit (dropWhile (\<lambda>c. \<not> is_digit c) s)
      in if m = [] then None else Some m)"

text \<open>
  One selector chain: \<^verbatim>\<open>for selector in selectors: try: ... except NoSuchElementException:
  continue\<close>. The body reads a value for the field from the element found (\<open>read\<close>, given
  the selector, the element and the value the field has so far), stores it, and leaves the
  loop when the field is then non-empty.
\<close>

fun field_chain ::
  "(string \<Rightarrow> element \<Rightarrow> pyval \<Rightarrow> pyval) \<Rightarrow> (string \<Rightarrow> lookup) \<Rightarrow> string list \<Rightarrow> pyval
     \<Rightarrow> string + pyval"
where
  "field_chain read lookup_of [] v = Inr v"
| "field_chain read lookup_of (selector # selectors) v =
     (case lookup_of selector of
        NoSuchElement \<Rightarrow> field_chain read lookup_of selectors v
      | Broken e \<Rightarrow> Inl e
      | Element el \<Rightarrow>
          (let v' = read selector el v
           in if truthy v' then Inr v' else field_chain read lookup_of selectors v'))"

definition read_text :: "string \<Rightarrow> element \<Rightarrow> pyval \<Rightarrow> pyval" where
  "read_text selector el v = PStr (elem_text el)"

definition read_phone :: "string \<Rightarrow> element \<Rightarrow> pyval \<Rightarrow> pyval" where
  "read_phone selector el v =
     (if prefix ''a[href'' selector then
        (case get_attribute el ''href'' of
           None \<Rightarrow> v
         | Some href \<Rightarrow> if href \<noteq> [] then PStr (remove_all ''tel:'' href) else v)
      else PStr (elem_text el))"

definition read_website :: "string \<Rightarrow> element \<Rightarrow> pyval \<Rightarrow> pyval" where
  "read_website selector el v =
     (case get_attribute el ''href'' of None \<Rightarrow> PNone | Some href \<Rightarrow> PStr href)"

text \<open>\<^verbatim>\<open>element.text or element.get_attribute("aria-label")\<close>, when it is non-empty.\<close>

definition text_or_label :: "element \<Rightarrow> string option" where
  "text_or_label el =
     (if elem_text el \<noteq> [] then Some (elem_text el)
      else (case get_attribute el ''aria-label'' of
              None \<Rightarrow> None
            | Some label \<Rightarrow> if label \<noteq> [] then Some label else None))"

definition rating_of_text :: "string \<Rightarrow> string" where
  "rating_of_text rating_text =
     (case search_decimal rating_text of Some m \<Rightarrow> m | None \<Rightarrow> rating_text)"

definition read_rating :: "string \<Rightarrow> element \<Rightarrow> pyval \<Rightarrow> pyval" where
  "read_rating selector el v =
     (case text_or_label el of None \<Rightarrow> v | Some rating_text \<Rightarrow> PStr (rating_of_text rating_text))"

definition read_reviews :: "string \<Rightarrow> element \<Rightarrow> pyval \<Rightarrow> pyval" where
  "read_reviews selector el v =
     (case text_or_label el of
        None \<Rightarrow> v
      | Some reviews_text \<Rightarrow>
          (case search_digits reviews_text of None \<Rightarrow> v | Some m \<Rightarrow> PStr m))"

definition name_selectors :: "string list" where
  "name_selectors =
     [''h1.fontHeadlineLarge'', ''h1.section-hero-header-title'', ''h1'',
      ''div.fontHeadlineLarge'']"

definition address_selectors :: "string list" where
  "address_selectors =
     [''button[data-item-id='address']'', ''button[data-tooltip='Copy address']'',
      ''button[aria-label*='address']'', ''div[data-attrid='kc:/location/location:address']'']"

definition phone_selectors :: "string list" where
  "phone_selectors =
     [''button[data-item-id='phone:tel:']'', ''button[data-tooltip='Copy phone number']'',
      ''button[aria-label*='phone']'', ''a[href^='tel:']'',
      ''div[data-attrid='kc:/collection/knowledge_panels/has_phone:phone']'']"

definition website_selectors :: "string list" where
  "website_selectors =
     [''a[data-item-id='authority']'', ''a[aria-label*='website']'',
      ''a[data-tooltip='Open website']'', ''a[href*='http']:not([href*='google'])'']"

definition category_selectors :: "string list" where
  "category_selectors =
     [''button[jsaction*='pane.rating.category']'', ''span[jstcache*='category']'',
      ''div[jsaction*='category']'', ''button[jsaction*='category']'']"

definition rating_selectors :: "string list" where
  "rating_selectors =
     [''div.fontDisplayLarge'', ''span.section-star-display'', ''span[aria-label*='stars']'',
      ''span[aria-label*='rating']'']"

definition reviews_selectors :: "string list" where
  "reviews_selectors =
     [''span[jsaction*='reviews']'', ''span[aria-label*='reviews']'', ''div[class*='review']'',
      ''button[jsaction*='reviews']'']"

text \<open>
  The opening hours. For each button: click it, read the cells, and for every weekday
  named in a lower-cased cell store the rest of the cell under that day; close the panel;
  stop when some day has been stored. An exception at a button moves on to the next
  button, keeping what has been stored.
\<close>

definition days :: "string list" where
  "days = [''monday'', ''tuesday'', ''wednesday'', ''thursday'', ''friday'', ''saturday'',
           ''sunday'']"

definition read_cell :: "string \<Rightarrow> (string \<times> string) list \<Rightarrow> (string \<times> string) list" where
  "read_cell cell hours =
     (let text = lower cell
      in fold (\<lambda>day hours.
                 if sublist day text then AList.update day (strip (remove_all day text)) hours
                 else hours)
              days hours)"

fun read_hours :: "hours_button list \<Rightarrow> (string \<times> string) list \<Rightarrow> (string \<times> string) list"
where
  "read_hours [] hours = hours"
| "read_hours (button # buttons) hours =
     (case click_error button of
        Some e \<Rightarrow> read_hours buttons hours
      | None \<Rightarrow>
          (let hours' = fold read_cell (cell_texts button) hours
           in case close_error button of
                Some e \<Rightarrow> read_hours buttons hours'
              | None \<Rightarrow> if hours' \<noteq> [] then hours' else read_hours buttons hours'))"

definition extract_hours :: "detail_page \<Rightarrow> (string \<times> string) list" where
  "extract_hours page = (case hours_buttons page of None \<Rightarrow> [] | Some buttons \<Rightarrow> read_hours buttons [])"

text \<open>
  The coordinates, read from the address: what lies between the first \<^verbatim>\<open>!3d\<close> and the
  \<^verbatim>\<open>!4d\<close> after it, and what follows that \<^verbatim>\<open>!4d\<close> up to the next \<^verbatim>\<open>!\<close>.
\<close>

definition extract_coordinates :: "string \<Rightarrow> (string \<times> string) list" where
  "extract_coordinates url =
     (case split_str ''!3d'' url of
        first # second # _ \<Rightarrow>
          (case split_str ''!4d'' second of
             latitude # rest # _ \<Rightarrow>
               [(''latitude'', latitude), (''longitude'', hd (split_on CHR ''!'' rest))]
           | _ \<Rightarrow> [])
      | _ \<Rightarrow> [])"

text \<open>
  The body of the \<^verbatim>\<open>try\<close>: the seven chains in the order of the source, the hours, the
  coordinates, and the removal of the empty values that are not mappings.
\<close>

definition is_dict :: "pyval \<Rightarrow> bool" where
  "is_dict v = (case v of PDict _ \<Rightarrow> True | _ \<Rightarrow> False)"

definition extract_fields :: "detail_page \<Rightarrow> string \<Rightarrow> string + pydict" where
  "extract_fields page url =
     (case field_chain read_text (find_element page) name_selectors (PStr []) of
        Inl e \<Rightarrow> Inl e
      | Inr name \<Rightarrow>
     (case field_chain read_text (find_element page) address_selectors (PStr []) of
        Inl e \<Rightarrow> Inl e
      | Inr address \<Rightarrow>
     (case field_chain read_phone (find_element page) phone_selectors (PStr []) of
        Inl e \<Rightarrow> Inl e
      | Inr phone \<Rightarrow>
     (case field_chain read_website (find_element page) website_selectors (PStr []) of
        Inl e \<Rightarrow> Inl e
      | Inr website \<Rightarrow>
     (case field_chain read_text (find_element page) category_selectors (PStr []) of
        Inl e \<Rightarrow> Inl e
      | Inr category \<Rightarrow>
     (case field_chain read_rating (find_element page) rating_selectors (PStr []) of
        Inl e \<Rightarrow> Inl e
      | Inr rating \<Rightarrow>
     (case field_chain read_reviews (find_element page) reviews_selectors (PStr []) of
        Inl e \<Rightarrow> Inl e
      | Inr reviews_count \<Rightarrow>
          (let business_data =
                 [(''url'', PStr url), (''name'', name), (''address'', address),
                  (''phone'', phone), (''website'', website), (''category'', category),
                  (''rating'', rating), (''reviews_count'', reviews_count),
                  (''hours'', PDict (extract_hours page)),
                  (''coordinates'', PDict (extract_coordinates url))]
           in Inr (filter (\<lambda>(k, v). truthy v \<or> is_dict v) business_data)))))))))"

definition extract_business_data :: "detail_page \<Rightarrow> string \<Rightarrow> pydict" where
  "extract_business_data page url =
     (case (case load_error page of Some e \<Rightarrow> Inl e | None \<Rightarrow> extract_fields page url) of
        Inl e \<Rightarrow> [(''url'', PStr url), (''error'', PStr e)]
      | Inr non_empty_data \<Rightarrow> non_empty_data)"

section \<open>Email Discovery: \<^verbatim>\<open>EmailFinder\<close>\<close>

definition common_prefixes :: "string list" where
  "common_prefixes =
     [''contact'', ''info'', ''hello'', ''support'', ''admin'', ''sales'',
      ''help'', ''office'', ''mail'', ''team'', ''business'', ''inquiries'',
      ''feedback'', ''customer'', ''service'', ''general'', ''manager'']"

text \<open>
  \<^verbatim>\<open>extract_domain_from_url\<close>: \<^verbatim>\<open>None\<close> for the empty address, otherwise the stripped,
  lower-cased address without \<^verbatim>\<open>http://\<close> or \<^verbatim>\<open>https://\<close>, without a leading
  \<^verbatim>\<open>www.\<close>, up to the first \<^verbatim>\<open>/\<close>.
\<close>

definition remove_scheme :: "string \<Rightarrow> string" where
  "remove_scheme s =
     (if prefix ''https://'' s then drop 8 s else if prefix ''http://'' s then drop 7 s else s)"

definition extract_domain_from_url :: "string \<Rightarrow> string option" where
  "extract_domain_from_url url =
     (if url = [] then None
      else Some (hd (split_on CHR ''/'' (remove_prefix ''www.'' (remove_scheme (lower (strip url)))))))"

text \<open>
  One fetched page, as the crawl reads it: the matches of \<^verbatim>\<open>re.findall(email_pattern, text)\<close>
  and the anchors of \<^verbatim>\<open>soup.find_all('a', href=True)\<close>, both in document order. The web is
  a function from addresses to what \<^verbatim>\<open>requests.get\<close> followed by \<^verbatim>\<open>raise_for_status\<close>
  gives there: a \<^verbatim>\<open>RequestException\<close> or a page.
\<close>

record anchor =
  anchor_href :: string
  anchor_text :: string

record page =
  found_emails :: "string list"
  anchors :: "anchor list"

datatype response = RequestException | Response page

type_synonym web = "string \<Rightarrow> response"

definition non_email_suffixes :: "string list" where
  "non_email_suffixes =
     [''.jpg'', ''.png'', ''.gif'', ''.jpeg'', ''.pdf'',
      ''.doc'', ''.docx'', ''.xls'', ''.xlsx'', ''.js'', ''.css'']"

text \<open>
  \<^verbatim>\<open>find_emails_on_page\<close>. A Python \<^verbatim>\<open>set\<close> of strings is a duplicate-free list here
  (\<^term>\<open>List.insert\<close> adds an element only when it is absent); the order in which
  \<^verbatim>\<open>list(emails)\<close> enumerates the set is not fixed by Python.
\<close>

definition find_emails_on_page :: "string list \<Rightarrow> string list" where
  "find_emails_on_page found =
     fold (\<lambda>email emails.
             if \<not> list_ex (\<lambda>domain. suffix domain (lower email)) non_email_suffixes
             then List.insert (lower email) emails else emails)
          found []"

text \<open>
  The scan of the first page for links to a contact page. \<open>contact_url\<close> is the local
  variable of that name: it has no value before the first assignment, and the branch for an
  absolute link to another domain assigns nothing, so that the test after it reads the value
  of an earlier link, or raises \<^verbatim>\<open>UnboundLocalError\<close> when there is none. The scan
  returns the frontier it has built, and the exception when one ended it.
\<close>

definition is_contact_link :: "anchor \<Rightarrow> bool" where
  "is_contact_link link \<longleftrightarrow>
     anchor_href link \<noteq> []
     \<and> (sublist ''contact'' (lower (anchor_text link))
        \<or> sublist ''about'' (lower (anchor_text link))
        \<or> sublist ''contact'' (lower (anchor_href link))
        \<or> sublist ''about'' (lower (anchor_href link)))"

definition resolve_link :: "string \<Rightarrow> string \<Rightarrow> string option \<Rightarrow> error + string option" where
  "resolve_link domain href contact_url =
     (if prefix ''/'' href then Inr (Some (''https://'' @ domain @ href))
      else if prefix ''http://'' href \<or> prefix ''https://'' href then
        (case extract_domain_from_url href of
           None \<Rightarrow> Inl TypeError
         | Some d \<Rightarrow> Inr (if sublist domain d then Some href else contact_url))
      else Inr (Some (''https://'' @ domain @ ''/'' @ href)))"

fun scan_links ::
  "string \<Rightarrow> string list \<Rightarrow> anchor list \<Rightarrow> string option \<Rightarrow> string list
     \<Rightarrow> error option \<times> string list"
where
  "scan_links domain visited [] contact_url urls = (None, urls)"
| "scan_links domain visited (link # links) contact_url urls =
     (if is_contact_link link then
        (case resolve_link domain (anchor_href link) contact_url of
           Inl e \<Rightarrow> (Some e, urls)
         | Inr None \<Rightarrow> (Some UnboundLocalError, urls)
         | Inr (Some u) \<Rightarrow>
             scan_links domain visited links (Some u)
               (if u \<notin> set visited \<and> u \<notin> set urls then urls @ [u] else urls))
      else scan_links domain visited links contact_url urls)"

text \<open>
  The crawl loop of \<^verbatim>\<open>scrape_website_for_emails\<close>. \<open>visited_urls\<close> is the set of that name
  in the order of insertion, which is the order of the calls of \<^verbatim>\<open>requests.get\<close>.
  A \<^verbatim>\<open>RequestException\<close> continues with the next address; any other exception leaves the
  loop through the outer \<^verbatim>\<open>except\<close>, after which the e-mails found so far are returned.
\<close>

record crawl =
  all_emails :: "string list"
  visited_urls :: "string list"
  urls_to_visit :: "string list"
  page_count :: nat

function crawl_loop :: "web \<Rightarrow> string \<Rightarrow> nat \<Rightarrow> crawl \<Rightarrow> crawl" where
  "crawl_loop web domain max_pages s =
     (case urls_to_visit s of
        [] \<Rightarrow> s
      | current_url # rest \<Rightarrow>
          if \<not> page_count s < max_pages then s
          else if current_url \<in> set (visited_urls s) then
            crawl_loop web domain max_pages (s\<lparr>urls_to_visit := rest\<rparr>)
          else
            (let s1 = s\<lparr>urls_to_visit := rest,
                        visited_urls := visited_urls s @ [current_url],
                        page_count := Suc (page_count s)\<rparr>
             in case web current_url of
                  RequestException \<Rightarrow> crawl_loop web domain max_pages s1
                | Response p \<Rightarrow>
                    (let s2 = s1\<lparr>all_emails :=
                                   List.union (find_emails_on_page (found_emails p)) (all_emails s1)\<rparr>
                     in if page_count s2 = 1 then
                          (case scan_links domain (visited_urls s2) (anchors p) None
                                  (urls_to_visit s2) of
                             (Some e, urls) \<Rightarrow> s2\<lparr>urls_to_visit := urls\<rparr>
                           | (None, urls) \<Rightarrow>
                               crawl_loop web domain max_pages (s2\<lparr>urls_to_visit := urls\<rparr>))
                        else crawl_loop web domain max_pages s2)))"
  by pat_completeness auto
termination
  by (relation "measures [\<lambda>(web, domain, max_pages, s). max_pages - page_count s,
                          \<lambda>(web, domain, max_pages, s). length (urls_to_visit s)]") auto

text \<open>
  \<^verbatim>\<open>scrape_website_for_emails\<close>: the frontier is seeded with the address as given, then the
  address gets its scheme, from which the domain is taken. (The address with its scheme is
  never empty, so the domain is never \<^verbatim>\<open>None\<close>.)
\<close>

definition add_scheme :: "string \<Rightarrow> string" where
  "add_scheme url =
     (if prefix ''http://'' url \<or> prefix ''https://'' url then url else ''https://'' @ url)"

definition crawl_domain :: "string \<Rightarrow> string" where
  "crawl_domain url =
     (case extract_domain_from_url (add_scheme url) of None \<Rightarrow> [] | Some d \<Rightarrow> d)"

definition scrape_crawl :: "web \<Rightarrow> string \<Rightarrow> nat \<Rightarrow> crawl" where
  "scrape_crawl web url max_pages =
     (let urls_to_visit0 = [url];
          domain = crawl_domain url
      in crawl_loop web domain max_pages
           \<lparr>all_emails = [], visited_urls = [], urls_to_visit = urls_to_visit0, page_count = 0\<rparr>)"

definition scrape_website_for_emails :: "web \<Rightarrow> string \<Rightarrow> nat \<Rightarrow> string list" where
  "scrape_website_for_emails web url max_pages = all_emails (scrape_crawl web url max_pages)"

text \<open>
  \<^verbatim>\<open>generate_common_emails(domain, business_name, owner_name)\<close>. The business name is
  whatever the record holds under \<^verbatim>\<open>name\<close>; \<^verbatim>\<open>business_name.lower()\<close> exists for strings
  only.
\<close>

definition is_alnum :: "char \<Rightarrow> bool" where
  "is_alnum c \<longleftrightarrow> is_lower c \<or> is_upper c \<or> is_digit c"

definition name_emails :: "string \<Rightarrow> pyval \<Rightarrow> error + string list" where
  "name_emails domain business_name =
     (if truthy business_name then
        (case business_name of
           PStr name \<Rightarrow>
             (let clean_name = filter is_alnum (lower name)
              in if clean_name \<noteq> [] then
                   Inr [clean_name @ ''@'' @ domain,
                        ''info@'' @ clean_name @ ''.'' @ last (split_on CHR ''.'' domain)]
                 else Inr [])
         | _ \<Rightarrow> Inl AttributeError)
      else Inr [])"

definition owner_emails :: "string \<Rightarrow> string option \<Rightarrow> string list" where
  "owner_emails domain owner_name =
     (case owner_name of
        None \<Rightarrow> []
      | Some owner \<Rightarrow>
          if owner = [] then []
          else
            (let name_parts = split_whitespace (lower owner)
             in if length name_parts \<ge> 2 then
                  (let first_name = filter is_lower (hd name_parts);
                       last_name = filter is_lower (last name_parts)
                   in if first_name \<noteq> [] \<and> last_name \<noteq> [] then
                        [first_name @ ''@'' @ domain,
                         last_name @ ''@'' @ domain,
                         first_name @ ''.'' @ last_name @ ''@'' @ domain,
                         hd first_name # last_name @ ''@'' @ domain,
                         first_name @ hd last_name # ''@'' @ domain]
                      else [])
                else []))"

definition generate_common_emails ::
  "string \<Rightarrow> pyval \<Rightarrow> string option \<Rightarrow> error + string list" where
  "generate_common_emails domain business_name owner_name =
     (if domain = [] then Inr []
      else
        (case name_emails domain business_name of
           Inl e \<Rightarrow> Inl e
         | Inr named \<Rightarrow>
             Inr (map (\<lambda>prefix. prefix @ ''@'' @ domain) common_prefixes
                  @ named @ owner_emails domain owner_name)))"

text \<open>
  The sort key of \<^verbatim>\<open>enrich_business_data_with_emails\<close>: a pair, compared as Python compares
  tuples, its second component compared as Python compares strings.
\<close>

definition priority_prefixes :: "string list" where
  "priority_prefixes = [''contact'', ''info'', ''hello'', ''support'', ''admin'', ''sales'', ''hello'']"

definition email_sort_key :: "string \<Rightarrow> nat \<times> string" where
  "email_sort_key email =
     (let email_prefix = lower (hd (split_on CHR ''@'' email))
      in (if list_ex (\<lambda>prefix. prefix = email_prefix) priority_prefixes then 0 else 1, email))"

definition sorted_emails :: "string list \<Rightarrow> string list" where
  "sorted_emails emails = sort_key email_sort_key emails"

text \<open>
  The body of the \<^verbatim>\<open>try\<close> of \<^verbatim>\<open>enrich_business_data_with_emails\<close>: the e-mails collected
  for the record, or the exception raised on the way. \<^verbatim>\<open>url.startswith\<close> in
  \<^verbatim>\<open>scrape_website_for_emails\<close> exists for strings only.
\<close>

definition collect_emails :: "web \<Rightarrow> pydict \<Rightarrow> error + string list" where
  "collect_emails web business_data =
     (let website = dict_get business_data ''website'' PNone;
          business_name = dict_get business_data ''name'' (PStr [])
      in if truthy website then
           (case website of
              PStr url \<Rightarrow>
                (let scraped_emails = scrape_website_for_emails web url 3;
                     emails = (if scraped_emails \<noteq> [] then scraped_emails else [])
                 in case extract_domain_from_url url of
                      None \<Rightarrow> Inr emails
                    | Some domain \<Rightarrow>
                        if domain \<noteq> [] then
                          (case generate_common_emails domain business_name None of
                             Inl e \<Rightarrow> Inl e
                           | Inr generated_emails \<Rightarrow>
                               Inr (if emails = [] \<and> generated_emails \<noteq> []
                                    then emails @ generated_emails else emails))
                        else Inr emails)
            | _ \<Rightarrow> Inl AttributeError)
         else Inr [])"

definition with_emails :: "pydict \<Rightarrow> string list \<Rightarrow> pydict" where
  "with_emails business_data emails =
     (if emails \<noteq> [] then
        (let sorted = sorted_emails emails
         in AList.update ''primary_email''
              (case sorted of [] \<Rightarrow> PNone | e # _ \<Rightarrow> PStr e)
              (AList.update ''emails'' (PList sorted) business_data))
      else
        AList.update ''primary_email'' PNone (AList.update ''emails'' (PList []) business_data))"

definition enrich_business_data_with_emails :: "web \<Rightarrow> pydict \<Rightarrow> pydict" where
  "enrich_business_data_with_emails web business_data =
     (case collect_emails web business_data of
        Inr emails \<Rightarrow> with_emails business_data emails
      | Inl e \<Rightarrow>
          AList.update ''primary_email'' PNone (AList.update ''emails'' (PList []) business_data))"

text \<open>The invariant of the scroll loop used in the proofs below.\<close>

definition pager_inv :: "pager \<Rightarrow> bool" where
  "pager_inv s \<longleftrightarrow>
     history s \<noteq> [] \<and> last (history s) = current_results_count s
     \<and> sorted_wrt (<) (butlast (history s))
     \<and> (\<forall>c \<in> set (butlast (history s)). c \<le> prev_results_count s)
     \<and> scroll_attempts s \<le> max_scroll_attempts
     \<and> length (history s) = Suc (scroll_attempts s)"

definition raised_inv :: "pager \<Rightarrow> bool" where
  "raised_inv s \<longleftrightarrow>
     scroll_attempts s \<le> max_scroll_attempts \<and> length (history s) = scroll_attempts s
     \<and> sorted_wrt (<) (history s)"

section \<open>Notions used in the statements about the Session Manager\<close>

text \<open>
  An environment in which every strategy fails, the three strategies in the order the
  specification gives them, and two concrete machines: a Windows machine with Chrome
  installed and a machine without a local Chrome binary.
\<close>

definition all_fail :: "environment \<Rightarrow> bool" where
  "all_fail env \<longleftrightarrow> list_all (\<lambda>s. isl (launch env s))
                     [VersionMatched, DefaultFetch, BuiltIn, ExplicitBinary]"

definition spec_strategies :: "strategy list" where
  "spec_strategies = [VersionMatched, DefaultFetch, ExplicitBinary]"

definition failure_of :: "strategy \<Rightarrow> string" where
  "failure_of s =
     (case s of
        VersionMatched \<Rightarrow> ''no such driver version''
      | DefaultFetch \<Rightarrow> ''could not reach host''
      | BuiltIn \<Rightarrow> ''unable to obtain driver for chrome''
      | ExplicitBinary \<Rightarrow> ''session not created'')"

definition windows_machine :: environment where
  "windows_machine =
     \<lparr>win_chrome = True, version_text = Some ''Google Chrome 120.0.6099.130'',
      launch = (\<lambda>s. Inl (failure_of s))\<rparr>"

definition linux_machine :: environment where
  "linux_machine =
     \<lparr>win_chrome = False, version_text = None, launch = (\<lambda>s. Inl (failure_of s))\<rparr>"

text \<open>
  Whether the version-matched driver is tried, and the text of the exception
  \<^verbatim>\<open>setup_driver\<close> raises for a last error \<open>e\<close>.
\<close>

definition version_known :: "environment \<Rightarrow> bool" where
  "version_known env \<longleftrightarrow>
     win_chrome env
     \<and> (case version_text env of
          None \<Rightarrow> False
        | Some text \<Rightarrow> text \<noteq> [] \<and> length (split_on CHR '' '' text) \<ge> 3)"

definition failure_message :: "string \<Rightarrow> string" where
  "failure_message e =
     (if sublist ''not a valid Win32 application'' e then compatibility_message
      else ''Failed to initialize ChromeDriver: '' @ e)"

section \<open>Notions used in the statements about the Detail Extractor\<close>

text \<open>
  The first decimal or integer numeric token of a text, in the words of the specification:
  the first maximal run of digits, together with a point and the digits after it when
  they follow.
\<close>

definition first_numeric_token :: "string \<Rightarrow> string option" where
  "first_numeric_token s =
     (let t = dropWhile (\<lambda>c. \<not> is_digit c) s;
          whole = takeWhile is_digit t;
          rest = dropWhile is_digit t
      in if whole = [] then None
         else (case rest of
                 [] \<Rightarrow> Some whole
               | c # after \<Rightarrow>
                   if c = CHR ''.'' \<and> takeWhile is_digit after \<noteq> []
                   then Some (whole @ CHR ''.'' # takeWhile is_digit after)
                   else Some whole))"

text \<open>A decimal token: digits, a point, digits.\<close>

definition decimal_token :: "string \<Rightarrow> bool" where
  "decimal_token m \<longleftrightarrow>
     takeWhile is_digit m \<noteq> []
     \<and> (case dropWhile is_digit m of
          [] \<Rightarrow> False
        | c # frac \<Rightarrow> c = CHR ''.'' \<and> frac \<noteq> [] \<and> list_all is_digit frac)"

text \<open>
  The first decimal token of a text: a decimal token that occurs in the text, is not
  followed by a further digit, and starts no later than any decimal token occurring in the
  text. The first run of digits of a text: digits preceded by no digit and followed by
  none.
\<close>

definition first_decimal_token :: "string \<Rightarrow> string \<Rightarrow> bool" where
  "first_decimal_token t m \<longleftrightarrow>
     (\<exists>pre post. t = pre @ m @ post \<and> decimal_token m
        \<and> (post = [] \<or> \<not> is_digit (hd post))
        \<and> (\<forall>pre' m' post'. t = pre' @ m' @ post' \<and> decimal_token m'
              \<longrightarrow> length pre \<le> length pre'))"

definition first_digit_run :: "string \<Rightarrow> string \<Rightarrow> bool" where
  "first_digit_run t n \<longleftrightarrow>
     (\<exists>pre post. t = pre @ n @ post \<and> \<not> list_ex is_digit pre
        \<and> n \<noteq> [] \<and> list_all is_digit n
        \<and> (post = [] \<or> \<not> is_digit (hd post)))"

text \<open>
  The texts a selector chain reads, in the order of its selectors: for every selector that
  finds an element, the element's text or, when that is empty, its accessible label, when
  one of them is not empty. The rating text is the first of them for the rating chain;
  the review text is the first for the review chain that holds a digit.
\<close>

definition chain_texts :: "(string \<Rightarrow> lookup) \<Rightarrow> string list \<Rightarrow> string list" where
  "chain_texts lookup_of selectors =
     List.map_filter
       (\<lambda>selector. case lookup_of selector of Element el \<Rightarrow> text_or_label el | _ \<Rightarrow> None)
       selectors"

definition has_digit :: "string \<Rightarrow> bool" where
  "has_digit t \<longleftrightarrow> list_ex is_digit t"

definition rating_text :: "detail_page \<Rightarrow> string option" where
  "rating_text page =
     (case chain_texts (find_element page) rating_selectors of [] \<Rightarrow> None | t # _ \<Rightarrow> Some t)"

definition reviews_text :: "detail_page \<Rightarrow> string option" where
  "reviews_text page = List.find has_digit (chain_texts (find_element page) reviews_selectors)"

text \<open>
  The digits of the model are the ASCII digits, as Python's \<^verbatim>\<open>\\d\<close> is on ASCII text; on
  other text \<^verbatim>\<open>\\d\<close> matches further decimal digits, so the statements about the tokens
  are made for ASCII texts.
\<close>

definition is_ascii :: "string \<Rightarrow> bool" where
  "is_ascii s \<longleftrightarrow> list_all (\<lambda>c. (of_char c :: nat) < 128) s"

text \<open>
  A page on which no selector matches anything, a page with a name, a rating given as
  \<^verbatim>\<open>5 stars\<close> in the accessible label, and a review text, and a page with a decimal
  rating and two review elements, the first without a digit.
\<close>

definition blank_page :: detail_page where
  "blank_page = \<lparr>load_error = None, find_element = (\<lambda>selector. NoSuchElement),
                  hours_buttons = Some []\<rparr>"

definition star_page :: detail_page where
  "star_page =
     \<lparr>load_error = None,
      find_element = (\<lambda>selector.
        if selector = ''h1'' then Element \<lparr>elem_text = ''Acme'', elem_attrs = []\<rparr>
        else if selector = ''span[aria-label*='stars']''
          then Element \<lparr>elem_text = [], elem_attrs = [(''aria-label'', ''5 stars'')]\<rparr>
        else if selector = ''span[aria-label*='reviews']''
          then Element \<lparr>elem_text = ''4.8 (1,234 reviews)'', elem_attrs = []\<rparr>
        else NoSuchElement),
      hours_buttons = Some []\<rparr>"

definition decimal_page :: detail_page where
  "decimal_page =
     \<lparr>load_error = None,
      find_element = (\<lambda>selector.
        if selector = ''div.fontDisplayLarge''
          then Element \<lparr>elem_text = ''Rated 4.5 of 5'', elem_attrs = []\<rparr>
        else if selector = ''span[jsaction*='reviews']''
          then Element \<lparr>elem_text = ''Reviews'', elem_attrs = []\<rparr>
        else if selector = ''span[aria-label*='reviews']''
          then Element \<lparr>elem_text = ''(120 reviews)'', elem_attrs = []\<rparr>
        else NoSuchElement),
      hours_buttons = Some []\<rparr>"

section \<open>Notions used in the statements about Email Discovery\<close>

text \<open>
  The ordering the specification describes: the role prefixes, the local part of an
  address (what precedes its first \<^verbatim>\<open>@\<close>), and "role addresses first, then
  lexicographically". These follow the words of the specification, not the sort key of
  the source.
\<close>

definition role_prefixes :: "string list" where
  "role_prefixes = [''contact'', ''info'', ''hello'', ''support'', ''admin'', ''sales'']"

definition local_part :: "string \<Rightarrow> string" where
  "local_part email = takeWhile (\<lambda>c. c \<noteq> CHR ''@'') email"

definition role_address :: "string \<Rightarrow> bool" where
  "role_address email \<longleftrightarrow> local_part email \<in> set role_prefixes"

definition role_first :: "string \<Rightarrow> string \<Rightarrow> bool" where
  "role_first a b \<longleftrightarrow>
     (role_address a \<and> \<not> role_address b) \<or> (role_address a = role_address b \<and> a \<le> b)"

definition lowercase :: "string \<Rightarrow> bool" where
  "lowercase s \<longleftrightarrow> list_all (\<lambda>c. \<not> is_upper c) s"

text \<open>
  The list a record holds under \<^verbatim>\<open>emails\<close>, and the keys of its serialized form:
  \<^verbatim>\<open>json.dump\<close> writes one member for every key of the dictionary.
\<close>

definition serialized_keys :: "pydict \<Rightarrow> string list" where
  "serialized_keys d = map fst d"


definition emails_of :: "pydict \<Rightarrow> string list" where
  "emails_of d = (case map_of d ''emails'' of Some (PList es) \<Rightarrow> es | _ \<Rightarrow> [])"

text \<open>
  The addresses the scan of the first page resolves: for each anchor that mentions
  \<^verbatim>\<open>contact\<close> or \<^verbatim>\<open>about\<close>, the address its branch of the scan assigns; an absolute
  link to another domain assigns none.
\<close>

definition link_target :: "string \<Rightarrow> anchor \<Rightarrow> string option" where
  "link_target domain link =
     (if is_contact_link link then
        (case resolve_link domain (anchor_href link) None of
           Inr (Some u) \<Rightarrow> Some u
         | _ \<Rightarrow> None)
      else None)"

definition link_targets :: "string \<Rightarrow> anchor list \<Rightarrow> string list" where
  "link_targets domain links = List.map_filter (link_target domain) links"

text \<open>Concrete webs and records for the examples.\<close>

definition offline :: web where
  "offline url = RequestException"

definition x_site :: web where
  "x_site url =
     (if url = ''https://x.com'' then
        Response \<lparr>found_emails = [''zeta@x.com'', ''info@x.com'', ''contact@x.com''], anchors = []\<rparr>
      else RequestException)"

definition example_site :: web where
  "example_site url =
     (if url = ''https://example.com'' then
        Response \<lparr>found_emails = [''owner@example.com''],
                  anchors = [\<lparr>anchor_href = ''/contact'', anchor_text = ''Contact''\<rparr>,
                             \<lparr>anchor_href = ''/about'', anchor_text = ''About us''\<rparr>]\<rparr>
      else RequestException)"

definition acme :: pydict where
  "acme = [(''url'', PStr ''https://maps.example/place/acme''),
           (''name'', PStr ''Acme''),
           (''website'', PStr ''https://acme.com'')]"

definition no_website :: pydict where
  "no_website = [(''url'', PStr ''https://maps.example/place/acme''), (''name'', PStr ''Acme'')]"






section \<open>Facts about the string functions\<close>

lemma split_on_not_Nil: "split_on c s \<noteq> []"
  by (induction s) (auto split: list.splits)

lemma hd_split_on: "hd (split_on c s) = takeWhile (\<lambda>x. x \<noteq> c) s"
  by (induction s) (auto split: list.splits simp: split_on_not_Nil)

lemma bind_InrE:
  assumes "(case x of Inl e \<Rightarrow> Inl e | Inr v \<Rightarrow> f v) = Inr d"
  obtains v where "x = Inr v" and "f v = Inr d"
  using assms by (cases x) simp_all

lemma map_of_filter_distinct:
  "distinct (map fst xs) \<Longrightarrow>
     map_of (filter (\<lambda>(k, v). P v) xs) k
       = (case map_of xs k of None \<Rightarrow> None | Some v \<Rightarrow> if P v then Some v else None)"
proof (induction xs)
  case Nil
  then show ?case by simp
next
  case (Cons x xs)
  obtain k' v' where x: "x = (k', v')" by (cases x)
  from Cons.prems x have "k' \<notin> fst ` set xs" by simp
  then have "map_of xs k' = None" by (simp add: map_of_eq_None_iff)
  with Cons x show ?case by (auto split: option.splits)
qed

lemma split_str_not_Nil: "split_str pat s \<noteq> []"
  by (induction s) (auto split: list.splits)

lemma prefix_hd_split_str: "prefix (hd (split_str pat s)) s"
  by (induction s) (auto split: list.splits simp: split_str_not_Nil)

lemma split_str_no_match: "\<not> sublist pat s \<Longrightarrow> split_str pat s = [s]"
proof (induction s)
  case Nil
  then show ?case by simp
next
  case (Cons c cs)
  from Cons.prems have np: "\<not> prefix pat (c # cs)" and ns: "\<not> sublist pat cs"
    by (simp_all add: sublist_Cons_right)
  from Cons.IH [OF ns] np show ?case by simp
qed

lemma prefix_of_short:
  assumes "prefix xs (ys @ zs)" and "length xs \<le> length ys"
  shows "prefix xs ys"
  using assms(1) _ assms(2) by (rule prefix_length_prefix) simp

lemma split_str_first:
  assumes "pat \<noteq> []" and "\<not> sublist pat (pre @ butlast pat)"
  shows "split_str pat (pre @ pat @ rest) = pre # split_str pat rest"
  using assms(2)
proof (induction pre)
  case Nil
  from assms(1) obtain c cs where p: "pat = c # cs" by (cases pat) auto
  have "split_str pat (pat @ rest) = [] # split_str pat (drop (length pat) (pat @ rest))"
    unfolding p by simp
  then show ?case by simp
next
  case (Cons x pre)
  from Cons.prems have ns: "\<not> sublist pat (pre @ butlast pat)"
    and np: "\<not> prefix pat (x # pre @ butlast pat)"
    by (simp_all add: sublist_Cons_right)
  have "\<not> prefix pat (x # pre @ pat @ rest)"
  proof
    assume a: "prefix pat (x # pre @ pat @ rest)"
    have "x # pre @ pat @ rest = (x # pre @ butlast pat) @ (last pat # rest)"
      using assms(1) by simp
    with a have "prefix pat ((x # pre @ butlast pat) @ (last pat # rest))" by simp
    moreover have "length pat \<le> length (x # pre @ butlast pat)" by simp
    ultimately have "prefix pat (x # pre @ butlast pat)" by (rule prefix_of_short)
    with np show False ..
  qed
  with Cons.IH [OF ns] show ?case by simp
qed

lemma no_char_no_sublist:
  "c \<notin> set pre \<Longrightarrow> \<not> sublist (c # p) (pre @ butlast (c # p))"
proof (induction pre)
  case Nil
  have "length (butlast (c # p)) < length (c # p)" by simp
  then show ?case by (auto dest: sublist_length_le)
next
  case (Cons x pre)
  then show ?case by (auto simp: sublist_Cons_right)
qed

lemma takeWhile_hd_split_str:
  "takeWhile (\<lambda>x. x \<noteq> c) (hd (split_str (c # p) s)) = takeWhile (\<lambda>x. x \<noteq> c) s"
  by (induction s) (auto split: list.splits simp: split_str_not_Nil)

section \<open>Properties of the Session Manager\<close>

declare setup_loop.simps [simp del]

lemma all_fail_launch: "all_fail env \<Longrightarrow> \<exists>e. launch env s = Inl e"
  by (cases s) (auto simp: all_fail_def isl_def)

lemma first_attempt_all_fail:
  assumes "all_fail env" and "launch env DefaultFetch = Inl e"
  shows "first_attempt env
     = ((if version_known env then [VersionMatched] else []) @ [DefaultFetch], Raises e)"
proof -
  from assms(1) obtain v where v: "launch env VersionMatched = Inl v"
    using all_fail_launch by blast
  with assms(2) show ?thesis
    by (auto simp: first_attempt_def default_fetch_def version_known_def split: option.splits)
qed

lemma setup_driver_all_fail:
  assumes "all_fail env"
    and d: "launch env DefaultFetch = Inl e1"
    and b: "launch env BuiltIn = Inl e2"
    and x: "launch env ExplicitBinary = Inl e3"
  shows "setup_driver env
     = (Some (failure_message (if win_chrome env then e3 else e2)),
        \<lparr>driver = None, has_wait = False, attempts = 3,
         last_error = Some (if win_chrome env then e3 else e2),
         launches = (if version_known env then [VersionMatched] else [])
                    @ [DefaultFetch, BuiltIn]
                    @ (if win_chrome env then [ExplicitBinary] else []),
         sleeps = 3\<rparr>)"
proof -
  let ?s0 = "\<lparr>driver = None, has_wait = False, attempts = 0, last_error = None,
              launches = [], sleeps = 0\<rparr>"
  let ?l1 = "(if version_known env then [VersionMatched] else []) @ [DefaultFetch]"
  let ?s1 = "\<lparr>driver = None, has_wait = False, attempts = 1, last_error = Some e1,
              launches = ?l1, sleeps = 1\<rparr>"
  let ?s2 = "\<lparr>driver = None, has_wait = False, attempts = 2, last_error = Some e2,
              launches = ?l1 @ [BuiltIn], sleeps = 2\<rparr>"
  let ?e = "if win_chrome env then e3 else e2"
  let ?s3 = "\<lparr>driver = None, has_wait = False, attempts = 3, last_error = Some ?e,
              launches = ?l1 @ [BuiltIn] @ (if win_chrome env then [ExplicitBinary] else []),
              sleeps = 3\<rparr>"
  have 1: "setup_loop env ?s0 = setup_loop env ?s1"
    by (subst setup_loop.simps)
      (simp add: max_attempts_def attempt_def first_attempt_all_fail [OF assms(1) d])
  have 2: "setup_loop env ?s1 = setup_loop env ?s2"
    by (subst setup_loop.simps) (simp add: max_attempts_def attempt_def b eval_nat_numeral)
  have 3: "setup_loop env ?s2 = setup_loop env ?s3"
    by (subst setup_loop.simps) (simp add: max_attempts_def attempt_def x eval_nat_numeral)
  have 4: "setup_loop env ?s3 = (False, ?s3)"
    by (subst setup_loop.simps) (simp add: max_attempts_def)
  show ?thesis
    unfolding setup_driver_def 1 2 3 4 by (simp add: failure_message_def Let_def)
qed

text \<open>
  C3, amended: when every strategy fails, the retry loop makes exactly 3 numbered attempts
  and sleeps one second after each of them. The launches made are, in this order: the
  version-matched fetch (only with a local Chrome on Windows whose version text has three
  words), the default fetch, the driver Selenium finds by itself, and the explicit local
  binary (only with a local Chrome on Windows; without one the third attempt launches
  nothing and raises the previous error again). Then an \<^verbatim>\<open>Exception\<close> is raised whose
  message is \<^verbatim>\<open>Failed to initialize ChromeDriver:\<close> followed by the text of the error of
  the last launch, or a fixed compatibility message when that text contains
  \<^verbatim>\<open>not a valid Win32 application\<close>.
\<close>

theorem C3_attempts_when_all_fail:
  assumes "all_fail env"
  shows "attempts (snd (setup_driver env)) = 3
    \<and> sleeps (snd (setup_driver env)) = 3
    \<and> launches (snd (setup_driver env))
        = (if version_known env then [VersionMatched] else [])
          @ [DefaultFetch, BuiltIn]
          @ (if win_chrome env then [ExplicitBinary] else [])
    \<and> launch env (if win_chrome env then ExplicitBinary else BuiltIn)
        = Inl (case last_error (snd (setup_driver env)) of None \<Rightarrow> [] | Some e \<Rightarrow> e)
    \<and> fst (setup_driver env)
        = Some (failure_message
                  (case last_error (snd (setup_driver env)) of None \<Rightarrow> [] | Some e \<Rightarrow> e))"
proof -
  from assms obtain e1 e2 e3 where
    l: "launch env DefaultFetch = Inl e1" "launch env BuiltIn = Inl e2"
       "launch env ExplicitBinary = Inl e3"
    using all_fail_launch by meson
  show ?thesis
    unfolding setup_driver_all_fail [OF assms l] using l by simp
qed

theorem C3_attempts_when_all_fail_witness:
  "all_fail windows_machine
   \<and> attempts (snd (setup_driver windows_machine)) = 3
   \<and> sleeps (snd (setup_driver windows_machine)) = 3
   \<and> launches (snd (setup_driver windows_machine))
       = [VersionMatched, DefaultFetch, BuiltIn, ExplicitBinary]
   \<and> fst (setup_driver windows_machine)
       = Some ''Failed to initialize ChromeDriver: session not created''"
proof -
  have h: "all_fail windows_machine" by code_simp
  have k: "version_known windows_machine" "win_chrome windows_machine" by code_simp+
  have e: "last_error (snd (setup_driver windows_machine)) = Some ''session not created''"
    by code_simp
  have m: "failure_message ''session not created''
             = ''Failed to initialize ChromeDriver: session not created''"
    by code_simp
  from C3_attempts_when_all_fail [OF h] h k e m show ?thesis by simp
qed

text \<open>
  C3, as stated, fails: on a Windows machine with Chrome four strategies are launched, the
  second of the specification's three being followed by one it does not name; on a machine
  without a local Chrome two are launched, in three attempts.
\<close>

theorem C3_four_launches_in_three_attempts:
  "all_fail windows_machine
   \<and> launches (snd (setup_driver windows_machine))
       = [VersionMatched, DefaultFetch, BuiltIn, ExplicitBinary]
   \<and> launches (snd (setup_driver windows_machine)) \<noteq> spec_strategies
   \<and> \<not> length (launches (snd (setup_driver windows_machine))) \<le> 3
   \<and> attempts (snd (setup_driver windows_machine)) = 3
   \<and> all_fail linux_machine
   \<and> launches (snd (setup_driver linux_machine)) = [DefaultFetch, BuiltIn]
   \<and> attempts (snd (setup_driver linux_machine)) = 3"
  by code_simp

section \<open>Properties of the Result Pager\<close>

lemmas scroll_loop_unfold = scroll_loop.simps

declare scroll_loop.simps [simp del]

lemma pager_inv_initial: "pager_inv (initial_pager found)"
  by (simp add: pager_inv_def initial_pager_def Let_def)

lemma pager_inv_step:
  assumes "pager_inv s" and "current_results_count s > prev_results_count s"
    and "scroll_attempts s < max_scroll_attempts"
  shows "pager_inv \<lparr>prev_results_count = current_results_count s,
                    current_results_count = n,
                    scroll_attempts = Suc (scroll_attempts s),
                    history = history s @ [n]\<rparr>"
proof -
  from assms(1) have ne: "history s \<noteq> []" and l: "last (history s) = current_results_count s"
    and so: "sorted_wrt (<) (butlast (history s))"
    and le: "\<forall>c \<in> set (butlast (history s)). c \<le> prev_results_count s"
    and len: "length (history s) = Suc (scroll_attempts s)"
    by (simp_all add: pager_inv_def)
  from ne have split: "history s = butlast (history s) @ [last (history s)]" by simp
  have "sorted_wrt (<) (butlast (history s) @ [last (history s)])"
    using so le l assms(2) by (auto simp: sorted_wrt_append)
  with split have so': "sorted_wrt (<) (history s)" by simp
  have le': "\<forall>c \<in> set (history s). c \<le> current_results_count s"
  proof
    fix c assume "c \<in> set (history s)"
    with split have "c \<in> set (butlast (history s)) \<or> c = last (history s)"
      by (metis Un_iff empty_iff insert_iff list.set(1) list.set(2) set_append)
    with le l assms(2) show "c \<le> current_results_count s" by auto
  qed
  show ?thesis
    using so' le' assms(3) len by (simp add: pager_inv_def)
qed

lemma pager_history_sorted:
  assumes "pager_inv s" and "current_results_count s > prev_results_count s"
  shows "sorted_wrt (<) (history s)"
proof -
  from assms(1) have ne: "history s \<noteq> []" and l: "last (history s) = current_results_count s"
    and so: "sorted_wrt (<) (butlast (history s))"
    and le: "\<forall>c \<in> set (butlast (history s)). c \<le> prev_results_count s"
    by (simp_all add: pager_inv_def)
  from ne have split: "history s = butlast (history s) @ [last (history s)]" by simp
  have "sorted_wrt (<) (butlast (history s) @ [last (history s)])"
    using so le l assms(2) by (auto simp: sorted_wrt_append)
  with split show ?thesis by simp
qed

lemma scroll_loop_inv:
  "pager_inv s \<Longrightarrow>
     (case scroll_loop obs max_results s of Inl t \<Rightarrow> raised_inv t | Inr t \<Rightarrow> pager_inv t)"
proof (induction obs max_results s rule: scroll_loop.induct)
  case (1 obs max_results s)
  show ?case
  proof (cases "int (current_results_count s) < max_results
         \<and> current_results_count s > prev_results_count s
         \<and> scroll_attempts s < max_scroll_attempts")
    case False
    have "scroll_loop obs max_results s = Inr s"
      by (subst scroll_loop_unfold) (simp only: False if_False)
    with "1.prems" show ?thesis by simp
  next
    case True
    show ?thesis
    proof (cases "obs (Suc (scroll_attempts s))")
      case Raised
      from "1.prems" have "length (history s) = Suc (scroll_attempts s)"
        by (simp add: pager_inv_def)
      with True Raised pager_history_sorted [OF "1.prems"] show ?thesis
        by (simp add: scroll_loop_unfold [of obs max_results s] raised_inv_def)
    next
      case (Visible found)
      let ?n = "count_business_elements found business_selectors (current_results_count s)"
      let ?s' = "\<lparr>prev_results_count = current_results_count s,
                    current_results_count = ?n,
                    scroll_attempts = Suc (scroll_attempts s),
                    history = history s @ [?n]\<rparr>"
      from True Visible have run: "scroll_loop obs max_results s = scroll_loop obs max_results ?s'"
        by (simp add: scroll_loop_unfold [of obs max_results s] Let_def)
      from True "1.prems" have inv: "pager_inv ?s'" by (intro pager_inv_step) simp_all
      from "1.IH" [OF True Visible refl inv] run show ?thesis by simp
    qed
  qed
qed

text \<open>
  C1, as stated, fails: on a page whose result list shrinks after a scroll the sequence of
  counts is 5, 3, which is not non-decreasing (the loop stops there and 3 is returned).
\<close>

theorem C1_count_not_monotonic:
  "scroll_run (observations shrinking_browser) 10
     = Inr \<lparr>prev_results_count = 5, current_results_count = 3, scroll_attempts = 1,
            history = [5, 3]\<rparr>
   \<and> \<not> sorted [5, 3 :: nat]
   \<and> scroll_results shrinking_browser 10 = Returns 3"
  by (simp add: scroll_run_def scroll_results_def shrinking_browser_def shrinking_dom_def
      initial_pager_def business_selectors_def scroll_loop_unfold max_scroll_attempts_def)

text \<open>
  C1, amended: for every target and every sequence of observations the loop halts (the
  function is total) after at most 10 scroll attempts. When the loop ends by its
  condition, one count was observed per attempt plus the initial one, the counts are
  strictly increasing up to the one before the last (the last may be lower), and
  \<^verbatim>\<open>scroll_results\<close> returns the last count, unless the screenshot after the loop raises.
  When a driver call before or in the loop raises, the counts observed until then are
  strictly increasing. Every exception raised inside the \<^verbatim>\<open>try\<close> ends in the handler,
  which returns 0, unless its own screenshot raises: then the exception leaves
  \<^verbatim>\<open>scroll_results\<close>.
\<close>

theorem C1_scroll_results_bounded:
  "(case scroll_run (observations b) max_results of
      Inl s \<Rightarrow>
        scroll_attempts s \<le> 10
        \<and> sorted_wrt (<) (history s)
        \<and> scroll_results b max_results = handle_error b
    | Inr s \<Rightarrow>
        scroll_attempts s \<le> 10
        \<and> length (history s) = Suc (scroll_attempts s)
        \<and> sorted_wrt (<) (butlast (history s))
        \<and> scroll_results b max_results
            = (if after_scrolling_shot_raises b then handle_error b
               else Returns (last (history s))))
   \<and> handle_error b = (if error_shot_raises b then Propagates else Returns 0)"
proof (cases "observations b 0")
  case Raised
  then show ?thesis by (simp add: scroll_run_def scroll_results_def handle_error_def)
next
  case (Visible found)
  then have run: "scroll_run (observations b) max_results
                    = scroll_loop (observations b) max_results (initial_pager found)"
    by (simp add: scroll_run_def)
  from scroll_loop_inv [OF pager_inv_initial, of "observations b" max_results found] show ?thesis
    unfolding scroll_results_def run
    by (auto simp: pager_inv_def raised_inv_def max_scroll_attempts_def handle_error_def
        split: sum.splits)
qed
section \<open>Properties of the Detail Extractor\<close>

lemma not_digit_point: "\<not> is_digit CHR ''.''"
  by (simp add: is_digit_def)

lemma takeWhile_digits_point:
  "list_all is_digit w \<Longrightarrow> takeWhile is_digit (w @ CHR ''.'' # f) = w"
  by (induction w) (simp_all add: not_digit_point)

lemma dropWhile_digits_point:
  "list_all is_digit w \<Longrightarrow> dropWhile is_digit (w @ CHR ''.'' # f) = CHR ''.'' # f"
  by (induction w) (simp_all add: not_digit_point)

lemma list_all_takeWhile: "list_all P (takeWhile P xs)"
  by (induction xs) simp_all

lemma decimal_token_form:
  assumes "decimal_token m"
  obtains w f where "m = w @ CHR ''.'' # f" and "w \<noteq> []" and "f \<noteq> []"
    and "list_all is_digit w" and "list_all is_digit f"
proof -
  from assms obtain f where w: "takeWhile is_digit m \<noteq> []"
    and d: "dropWhile is_digit m = CHR ''.'' # f" and f: "f \<noteq> []" "list_all is_digit f"
    by (auto simp: decimal_token_def simp del: dropWhile_eq_Cons_conv split: list.splits)
  have "m = takeWhile is_digit m @ dropWhile is_digit m" by simp
  then have eq: "m = takeWhile is_digit m @ CHR ''.'' # f" by (simp only: d)
  show ?thesis by (rule that [OF eq w f(1) list_all_takeWhile f(2)])
qed

lemma match_decimal_complete:
  assumes "decimal_token m"
  shows "match_decimal (m @ post) \<noteq> None"
proof -
  from assms obtain w f where m: "m = w @ CHR ''.'' # f" and w: "w \<noteq> []" "list_all is_digit w"
    and f: "f \<noteq> []" "list_all is_digit f"
    by (rule decimal_token_form)
  have 1: "takeWhile is_digit (m @ post) = w"
    unfolding m using takeWhile_digits_point [OF w(2), of "f @ post"] by simp
  have 2: "dropWhile is_digit (m @ post) = CHR ''.'' # f @ post"
    unfolding m using dropWhile_digits_point [OF w(2), of "f @ post"] by simp
  have "takeWhile is_digit (f @ post) = f @ takeWhile is_digit post"
    using f(2) by (simp add: takeWhile_append2 list_all_iff)
  with f(1) have 3: "takeWhile is_digit (f @ post) \<noteq> []" by simp
  show ?thesis
    unfolding match_decimal_def Let_def 1 2 using w(1) 3 by simp
qed

lemma match_decimal_sound:
  assumes "match_decimal s = Some m"
  shows "\<exists>post. s = m @ post \<and> decimal_token m \<and> (post = [] \<or> \<not> is_digit (hd post))"
proof -
  let ?w = "takeWhile is_digit s"
  from assms obtain after where r: "dropWhile is_digit s = CHR ''.'' # after"
    and f: "takeWhile is_digit after \<noteq> []" and w: "?w \<noteq> []"
    and m: "m = ?w @ CHR ''.'' # takeWhile is_digit after"
    by (auto simp: match_decimal_def Let_def simp del: dropWhile_eq_Cons_conv
        split: if_splits list.splits)
  let ?post = "dropWhile is_digit after"
  have "s = ?w @ dropWhile is_digit s" by simp
  then have "s = ?w @ CHR ''.'' # after" by (simp only: r)
  moreover have "after = takeWhile is_digit after @ ?post" by simp
  ultimately have "s = ?w @ CHR ''.'' # takeWhile is_digit after @ ?post" by simp
  then have s: "s = m @ ?post" using m by simp
  have d: "decimal_token m"
    unfolding m decimal_token_def
    using w f by (simp add: takeWhile_digits_point dropWhile_digits_point list_all_takeWhile)
  have "?post = [] \<or> \<not> is_digit (hd ?post)"
    using hd_dropWhile [of is_digit after] by blast
  with s d show ?thesis by blast
qed

lemma search_decimal_None:
  "search_decimal t = None \<Longrightarrow> t = pre @ s \<Longrightarrow> s \<noteq> [] \<Longrightarrow> match_decimal s = None"
proof (induction t arbitrary: pre)
  case Nil
  then show ?case by simp
next
  case (Cons c cs)
  from Cons.prems(1) have here: "match_decimal (c # cs) = None" and rest: "search_decimal cs = None"
    by (auto split: option.splits)
  show ?case
  proof (cases pre)
    case Nil
    with Cons.prems(2) here show ?thesis by simp
  next
    case (Cons x pre')
    with Cons.prems(2) have "cs = pre' @ s" by simp
    from Cons.IH [OF rest this Cons.prems(3)] show ?thesis .
  qed
qed

lemma search_decimal_Some:
  "search_decimal t = Some m \<Longrightarrow>
     \<exists>pre post. t = pre @ m @ post \<and> match_decimal (m @ post) = Some m
       \<and> (\<forall>pre' s. t = pre' @ s \<and> length pre' < length pre \<longrightarrow> match_decimal s = None)"
proof (induction t)
  case Nil
  then show ?case by simp
next
  case (Cons c cs)
  show ?case
  proof (cases "match_decimal (c # cs)")
    case (Some m')
    with Cons.prems have mm: "m' = m" by simp
    from match_decimal_sound [OF Some] mm obtain post where "c # cs = m @ post" by blast
    with Some mm have "c # cs = [] @ m @ post \<and> match_decimal (m @ post) = Some m
       \<and> (\<forall>pre' s. c # cs = pre' @ s \<and> length pre' < length ([] :: string)
             \<longrightarrow> match_decimal s = None)"
      by simp
    then show ?thesis by blast
  next
    case None
    with Cons.prems have "search_decimal cs = Some m" by simp
    from Cons.IH [OF this] obtain pre post where t: "cs = pre @ m @ post"
      and md: "match_decimal (m @ post) = Some m"
      and left: "\<forall>pre' s. cs = pre' @ s \<and> length pre' < length pre \<longrightarrow> match_decimal s = None"
      by blast
    have "\<forall>pre' s. c # cs = pre' @ s \<and> length pre' < length (c # pre)
            \<longrightarrow> match_decimal s = None"
    proof (intro allI impI)
      fix pre' s
      assume a: "c # cs = pre' @ s \<and> length pre' < length (c # pre)"
      show "match_decimal s = None"
      proof (cases pre')
        case Nil
        with a None show ?thesis by simp
      next
        case (Cons x p)
        with a have "cs = p @ s \<and> length p < length pre" by simp
        with left show ?thesis by blast
      qed
    qed
    moreover from t have "c # cs = (c # pre) @ m @ post" by simp
    ultimately show ?thesis using md by blast
  qed
qed

lemma search_decimal_first:
  assumes "search_decimal t = Some m"
  shows "first_decimal_token t m"
proof -
  from search_decimal_Some [OF assms] obtain pre post where t: "t = pre @ m @ post"
    and md: "match_decimal (m @ post) = Some m"
    and left: "\<forall>pre' s. t = pre' @ s \<and> length pre' < length pre \<longrightarrow> match_decimal s = None"
    by blast
  from match_decimal_sound [OF md] obtain post' where e: "m @ post = m @ post'"
    and d: "decimal_token m" and p: "post' = [] \<or> \<not> is_digit (hd post')"
    by blast
  from e have pp: "post' = post" by simp
  have "\<forall>pre' m' post'. t = pre' @ m' @ post' \<and> decimal_token m' \<longrightarrow> length pre \<le> length pre'"
  proof (intro allI impI)
    fix pre' m' post'
    assume a: "t = pre' @ m' @ post' \<and> decimal_token m'"
    show "length pre \<le> length pre'"
    proof (rule ccontr)
      assume "\<not> length pre \<le> length pre'"
      then have "length pre' < length pre" by simp
      with a left have "match_decimal (m' @ post') = None" by blast
      with match_decimal_complete [of m' post'] a show False by simp
    qed
  qed
  with t d p pp show ?thesis unfolding first_decimal_token_def by blast
qed

lemma search_decimal_absent:
  assumes "search_decimal t = None" and "decimal_token m"
  shows "\<not> sublist m t"
proof
  assume "sublist m t"
  then obtain pre post where t: "t = pre @ m @ post" by (auto simp: sublist_def)
  from assms(2) have "m \<noteq> []" by (auto simp: decimal_token_def)
  then have "m @ post \<noteq> []" by simp
  from search_decimal_None [OF assms(1) t this] match_decimal_complete [OF assms(2), of post]
  show False by simp
qed

lemma search_digits_first:
  assumes "search_digits t = Some n"
  shows "first_digit_run t n"
proof -
  let ?pre = "takeWhile (\<lambda>c. \<not> is_digit c) t"
  let ?r = "dropWhile (\<lambda>c. \<not> is_digit c) t"
  let ?post = "dropWhile is_digit ?r"
  from assms have n: "n = takeWhile is_digit ?r" and ne: "n \<noteq> []"
    by (auto simp: search_digits_def Let_def split: if_splits)
  have "t = ?pre @ ?r" by simp
  moreover have "?r = n @ ?post" unfolding n by simp
  ultimately have t: "t = ?pre @ n @ ?post" by simp
  have 1: "\<not> list_ex is_digit ?pre"
    by (auto simp: list_ex_iff dest: set_takeWhileD)
  have 2: "list_all is_digit n" unfolding n by (rule list_all_takeWhile)
  have 3: "?post = [] \<or> \<not> is_digit (hd ?post)"
    using hd_dropWhile [of is_digit ?r] by blast
  from t 1 2 3 ne show ?thesis unfolding first_digit_run_def by blast
qed

lemma search_digits_None: "search_digits t = None \<longleftrightarrow> \<not> list_ex is_digit t"
proof -
  let ?r = "dropWhile (\<lambda>c. \<not> is_digit c) t"
  have "takeWhile is_digit ?r = [] \<longleftrightarrow> ?r = []"
  proof
    assume a: "takeWhile is_digit ?r = []"
    show "?r = []"
    proof (rule ccontr)
      assume ne: "?r \<noteq> []"
      then have "\<not> \<not> is_digit (hd ?r)" by (rule hd_dropWhile)
      with ne a show False by (cases ?r) (simp_all del: dropWhile_eq_Cons_conv)
    qed
  next
    assume "?r = []"
    then have "takeWhile is_digit ?r = takeWhile is_digit []" by (rule arg_cong)
    then show "takeWhile is_digit ?r = []" by simp
  qed
  then show ?thesis
    by (simp add: search_digits_def Let_def list_ex_iff)
qed

lemma text_or_label_nonempty: "text_or_label el = Some t \<Longrightarrow> t \<noteq> []"
  by (auto simp: text_or_label_def split: if_splits option.splits)

lemma decimal_token_nonempty: "decimal_token m \<Longrightarrow> m \<noteq> []"
  by (auto simp: decimal_token_def)

lemma rating_of_text_nonempty: "t \<noteq> [] \<Longrightarrow> rating_of_text t \<noteq> []"
proof (cases "search_decimal t")
  case None
  assume "t \<noteq> []"
  with None show ?thesis by (simp add: rating_of_text_def)
next
  case (Some m)
  from search_decimal_first [OF Some] have "decimal_token m"
    by (auto simp: first_decimal_token_def)
  with Some show ?thesis by (simp add: rating_of_text_def decimal_token_nonempty)
qed

lemma chain_texts_Cons:
  "chain_texts lookup_of (selector # selectors)
     = (case lookup_of selector of
          Element el \<Rightarrow> (case text_or_label el of None \<Rightarrow> [] | Some t \<Rightarrow> [t])
        | _ \<Rightarrow> [])
       @ chain_texts lookup_of selectors"
  by (simp add: chain_texts_def map_filter_simps split: lookup.splits option.splits)

lemma chain_rating:
  "field_chain read_rating lookup_of selectors (PStr []) = Inr v \<Longrightarrow>
     v = (case chain_texts lookup_of selectors of
            [] \<Rightarrow> PStr [] | t # _ \<Rightarrow> PStr (rating_of_text t))"
proof (induction selectors)
  case Nil
  then show ?case by (simp add: chain_texts_def map_filter_simps)
next
  case (Cons selector selectors)
  show ?case
  proof (cases "lookup_of selector")
    case NoSuchElement
    with Cons show ?thesis by (simp add: chain_texts_Cons)
  next
    case (Broken e)
    with Cons.prems show ?thesis by simp
  next
    case (Element el)
    show ?thesis
    proof (cases "text_or_label el")
      case None
      with Element Cons show ?thesis by (simp add: chain_texts_Cons read_rating_def)
    next
      case (Some t)
      then have "rating_of_text t \<noteq> []"
        by (intro rating_of_text_nonempty text_or_label_nonempty)
      with Some Element Cons.prems show ?thesis
        by (simp add: chain_texts_Cons read_rating_def)
    qed
  qed
qed

lemma search_digits_has_digit: "search_digits t = None \<longleftrightarrow> \<not> has_digit t"
  by (simp add: search_digits_None has_digit_def)

lemma search_digits_nonempty: "search_digits t = Some n \<Longrightarrow> n \<noteq> []"
  by (auto simp: search_digits_def Let_def split: if_splits)

lemma chain_reviews:
  "field_chain read_reviews lookup_of selectors (PStr []) = Inr v \<Longrightarrow>
     v = (case List.find has_digit (chain_texts lookup_of selectors) of
            None \<Rightarrow> PStr []
          | Some t \<Rightarrow> (case search_digits t of None \<Rightarrow> PStr [] | Some n \<Rightarrow> PStr n))"
proof (induction selectors)
  case Nil
  then show ?case by (simp add: chain_texts_def map_filter_simps)
next
  case (Cons selector selectors)
  show ?case
  proof (cases "lookup_of selector")
    case NoSuchElement
    with Cons show ?thesis by (simp add: chain_texts_Cons)
  next
    case (Broken e)
    with Cons.prems show ?thesis by simp
  next
    case (Element el)
    show ?thesis
    proof (cases "text_or_label el")
      case None
      with Element Cons show ?thesis by (simp add: chain_texts_Cons read_reviews_def)
    next
      case (Some t)
      show ?thesis
      proof (cases "search_digits t")
        case None
        then have "\<not> has_digit t" by (simp add: search_digits_has_digit)
        with None Some Element Cons show ?thesis
          by (simp add: chain_texts_Cons read_reviews_def)
      next
        case (Some n)
        then have "has_digit t" using search_digits_has_digit [of t] by simp
        moreover from Some have "n \<noteq> []" by (rule search_digits_nonempty)
        ultimately show ?thesis
          using Some \<open>text_or_label el = Some t\<close> Element Cons.prems
          by (simp add: chain_texts_Cons read_reviews_def)
      qed
    qed
  qed
qed

lemma chain_texts_nonempty:
  "t \<in> set (chain_texts lookup_of selectors) \<Longrightarrow> t \<noteq> []"
proof (induction selectors)
  case Nil
  then show ?case by (simp add: chain_texts_def map_filter_simps)
next
  case (Cons selector selectors)
  then show ?case
    by (auto simp: chain_texts_Cons split: lookup.splits option.splits
        dest: text_or_label_nonempty [OF sym])
qed

lemma extract_fields_Inr:
  assumes "extract_fields page url = Inr d"
  shows "\<exists>name address phone website category rating reviews_count.
      field_chain read_rating (find_element page) rating_selectors (PStr []) = Inr rating
    \<and> field_chain read_reviews (find_element page) reviews_selectors (PStr []) = Inr reviews_count
    \<and> d = filter (\<lambda>(k, v). truthy v \<or> is_dict v)
              [(''url'', PStr url), (''name'', name), (''address'', address),
               (''phone'', phone), (''website'', website), (''category'', category),
               (''rating'', rating), (''reviews_count'', reviews_count),
               (''hours'', PDict (extract_hours page)),
               (''coordinates'', PDict (extract_coordinates url))]"
  using assms unfolding extract_fields_def Let_def
  apply (elim bind_InrE)
  apply (simp only: sum.inject)
  apply (rule exI)+
  apply (intro conjI)
    apply (rule refl | assumption | (rule sym, assumption))+
  done

lemma business_data_keys:
  "distinct (map fst
     [(''url'', u), (''name'', name), (''address'', address),
      (''phone'', phone), (''website'', website), (''category'', category),
      (''rating'', rating), (''reviews_count'', reviews_count),
      (''hours'', h), (''coordinates'', c :: pyval)])"
  by simp

lemma extract_fields_entries:
  assumes "extract_fields page url = Inr d"
  obtains rating reviews_count where
    "field_chain read_rating (find_element page) rating_selectors (PStr []) = Inr rating"
    and "field_chain read_reviews (find_element page) reviews_selectors (PStr []) = Inr reviews_count"
    and "map_of d ''rating'' = (if truthy rating \<or> is_dict rating then Some rating else None)"
    and "map_of d ''reviews_count''
           = (if truthy reviews_count \<or> is_dict reviews_count then Some reviews_count else None)"
proof -
  from extract_fields_Inr [OF assms]
  obtain name address phone website category rating reviews_count where
    r: "field_chain read_rating (find_element page) rating_selectors (PStr []) = Inr rating"
    and v: "field_chain read_reviews (find_element page) reviews_selectors (PStr []) = Inr reviews_count"
    and d: "d = filter (\<lambda>(k, v). truthy v \<or> is_dict v)
              [(''url'', PStr url), (''name'', name), (''address'', address),
               (''phone'', phone), (''website'', website), (''category'', category),
               (''rating'', rating), (''reviews_count'', reviews_count),
               (''hours'', PDict (extract_hours page)),
               (''coordinates'', PDict (extract_coordinates url))]"
    by blast
  have 1: "map_of d ''rating'' = (if truthy rating \<or> is_dict rating then Some rating else None)"
    unfolding d by (subst map_of_filter_distinct [OF business_data_keys]) simp
  have 2: "map_of d ''reviews_count''
           = (if truthy reviews_count \<or> is_dict reviews_count then Some reviews_count else None)"
    unfolding d by (subst map_of_filter_distinct [OF business_data_keys]) simp
  from r v 1 2 show ?thesis by (rule that)
qed

lemma field_chain_blank:
  "\<forall>s. lookup_of s = NoSuchElement \<Longrightarrow> field_chain read lookup_of selectors v = Inr v"
  by (induction selectors) simp_all

lemma extract_fields_blank:
  assumes "\<forall>s. find_element page s = NoSuchElement" and "hours_buttons page = Some []"
  shows "extract_fields page url
     = Inr ((if url \<noteq> [] then [(''url'', PStr url)] else [])
            @ [(''hours'', PDict []), (''coordinates'', PDict (extract_coordinates url))])"
  using assms
  by (simp add: extract_fields_def field_chain_blank extract_hours_def is_dict_def)

lemma extract_coordinates_none: "\<not> sublist ''!3d'' url \<Longrightarrow> extract_coordinates url = []"
  by (simp add: extract_coordinates_def split_str_no_match)

lemma extract_coordinates_no_4d:
  assumes "\<not> sublist ''!3d'' (pre @ ''!3'')" and "\<not> sublist ''!4d'' seg"
  shows "extract_coordinates (pre @ ''!3d'' @ seg) = []"
proof -
  have 1: "split_str ''!3d'' (pre @ ''!3d'' @ seg) = pre # split_str ''!3d'' seg"
    using assms(1) by (intro split_str_first) simp_all
  obtain second others where 2: "split_str ''!3d'' seg = second # others"
    using split_str_not_Nil [of "''!3d''" seg] by (cases "split_str ''!3d'' seg") auto
  have "prefix second seg" using prefix_hd_split_str [of "''!3d''" seg] 2 by simp
  then have "sublist second seg" by (rule prefix_imp_sublist)
  with assms(2) have "\<not> sublist ''!4d'' second" by (meson sublist_order.order_trans)
  then have "split_str ''!4d'' second = [second]" by (rule split_str_no_match)
  with 1 2 show ?thesis by (simp add: extract_coordinates_def)
qed

lemma extract_coordinates_found:
  assumes "\<not> sublist ''!3d'' (pre @ ''!3'')"
    and "CHR ''!'' \<notin> set lat" and "CHR ''!'' \<notin> set lng"
    and "tail = [] \<or> hd tail = CHR ''!''"
    and "\<not> sublist ''!3d'' (lat @ ''!4d'' @ lng @ tail)"
  shows "extract_coordinates (pre @ ''!3d'' @ lat @ ''!4d'' @ lng @ tail)
           = [(''latitude'', lat), (''longitude'', lng)]"
proof -
  let ?seg = "lat @ ''!4d'' @ lng @ tail"
  have 1: "split_str ''!3d'' (pre @ ''!3d'' @ ?seg) = pre # split_str ''!3d'' ?seg"
    using assms(1) by (intro split_str_first) simp_all
  have 2: "split_str ''!3d'' ?seg = [?seg]" using assms(5) by (rule split_str_no_match)
  have "\<not> sublist ''!4d'' (lat @ butlast ''!4d'')"
    using assms(2) by (rule no_char_no_sublist)
  then have 3: "split_str ''!4d'' ?seg = lat # split_str ''!4d'' (lng @ tail)"
    by (intro split_str_first) simp_all
  obtain rest others where 4: "split_str ''!4d'' (lng @ tail) = rest # others"
    using split_str_not_Nil [of "''!4d''" "lng @ tail"]
    by (cases "split_str ''!4d'' (lng @ tail)") auto
  have "takeWhile (\<lambda>x. x \<noteq> CHR ''!'') rest = takeWhile (\<lambda>x. x \<noteq> CHR ''!'') (lng @ tail)"
    using takeWhile_hd_split_str [of "CHR ''!''" "''4d''" "lng @ tail"] 4 by simp
  also have "\<dots> = lng"
    using assms(3,4) by (cases tail) (auto simp: takeWhile_append2 takeWhile_tail)
  finally have 5: "hd (split_on CHR ''!'' rest) = lng" by (simp add: hd_split_on)
  show ?thesis
    using 1 2 3 4 5 by (simp add: extract_coordinates_def)
qed

lemma extract_fields_keeps_mappings:
  assumes "extract_fields page url = Inr d"
  shows "map_of d ''hours'' = Some (PDict (extract_hours page))
       \<and> map_of d ''coordinates'' = Some (PDict (extract_coordinates url))"
  using assms unfolding extract_fields_def Let_def
  apply (elim bind_InrE)
  apply (simp only: sum.inject)
  apply (rotate_tac -1)
  apply (erule subst)
  apply (rule conjI)
   apply (rule map_of_filter_in)
    apply simp
   apply (simp add: is_dict_def)
  apply (rule map_of_filter_in)
   apply simp
  apply (simp add: is_dict_def)
  done

text \<open>
  C4, amended: \<^verbatim>\<open>extract_business_data\<close> always returns a record: either the error record
  with the keys \<^verbatim>\<open>url\<close> and \<^verbatim>\<open>error\<close>, or a record that retains \<^verbatim>\<open>hours\<close> and
  \<^verbatim>\<open>coordinates\<close>. On a page where no selector matches and no hours button is found, it
  returns the key \<^verbatim>\<open>url\<close> (when the address is not empty), \<^verbatim>\<open>hours\<close> bound to the
  empty mapping and \<^verbatim>\<open>coordinates\<close> bound to the mapping read from the address. That
  mapping is empty when the address does not contain \<^verbatim>\<open>!3d\<close>, and when no \<^verbatim>\<open>!4d\<close>
  follows its first \<^verbatim>\<open>!3d\<close>; it is latitude \<open>lat\<close> and longitude \<open>lng\<close> when the address
  reads \<open>pre\<close> \<^verbatim>\<open>!3d\<close> \<open>lat\<close> \<^verbatim>\<open>!4d\<close> \<open>lng\<close> \<open>tail\<close> with this \<^verbatim>\<open>!3d\<close> the only one,
  no \<^verbatim>\<open>!\<close> in \<open>lat\<close> and \<open>lng\<close>, and \<open>tail\<close> empty or beginning with \<^verbatim>\<open>!\<close>.
\<close>

theorem C4_blank_page_record:
  "((\<exists>e. extract_business_data page url = [(''url'', PStr url), (''error'', PStr e)])
      \<or> (\<exists>h. map_of (extract_business_data page url) ''hours'' = Some (PDict h))
        \<and> map_of (extract_business_data page url) ''coordinates''
            = Some (PDict (extract_coordinates url)))
   \<and> (load_error page = None \<and> (\<forall>s. find_element page s = NoSuchElement)
        \<and> hours_buttons page = Some [] \<longrightarrow>
      extract_business_data page url
        = (if url \<noteq> [] then [(''url'', PStr url)] else [])
          @ [(''hours'', PDict []), (''coordinates'', PDict (extract_coordinates url))])
   \<and> (\<not> sublist ''!3d'' url \<longrightarrow> extract_coordinates url = [])
   \<and> (\<not> sublist ''!3d'' (pre @ ''!3'') \<and> \<not> sublist ''!4d'' seg \<longrightarrow>
      extract_coordinates (pre @ ''!3d'' @ seg) = [])
   \<and> (\<not> sublist ''!3d'' (pre @ ''!3'') \<and> CHR ''!'' \<notin> set lat \<and> CHR ''!'' \<notin> set lng
        \<and> (tail = [] \<or> hd tail = CHR ''!'')
        \<and> \<not> sublist ''!3d'' (lat @ ''!4d'' @ lng @ tail) \<longrightarrow>
      extract_coordinates (pre @ ''!3d'' @ lat @ ''!4d'' @ lng @ tail)
        = [(''latitude'', lat), (''longitude'', lng)])"
proof (intro conjI impI)
  show "(\<exists>e. extract_business_data page url = [(''url'', PStr url), (''error'', PStr e)])
      \<or> (\<exists>h. map_of (extract_business_data page url) ''hours'' = Some (PDict h))
        \<and> map_of (extract_business_data page url) ''coordinates''
            = Some (PDict (extract_coordinates url))"
  proof (cases "load_error page")
    case (Some e)
    then show ?thesis by (simp add: extract_business_data_def)
  next
    case None
    show ?thesis
    proof (cases "extract_fields page url")
      case (Inl e)
      with None show ?thesis by (simp add: extract_business_data_def)
    next
      case (Inr d)
      with None extract_fields_keeps_mappings [OF Inr] show ?thesis
        by (simp add: extract_business_data_def)
    qed
  qed
next
  assume "load_error page = None \<and> (\<forall>s. find_element page s = NoSuchElement)
        \<and> hours_buttons page = Some []"
  then show "extract_business_data page url
        = (if url \<noteq> [] then [(''url'', PStr url)] else [])
          @ [(''hours'', PDict []), (''coordinates'', PDict (extract_coordinates url))]"
    by (simp add: extract_business_data_def extract_fields_blank)
next
  assume "\<not> sublist ''!3d'' url"
  then show "extract_coordinates url = []" by (rule extract_coordinates_none)
next
  assume "\<not> sublist ''!3d'' (pre @ ''!3'') \<and> \<not> sublist ''!4d'' seg"
  then show "extract_coordinates (pre @ ''!3d'' @ seg) = []"
    by (intro extract_coordinates_no_4d) simp_all
next
  assume a: "\<not> sublist ''!3d'' (pre @ ''!3'') \<and> CHR ''!'' \<notin> set lat \<and> CHR ''!'' \<notin> set lng
        \<and> (tail = [] \<or> hd tail = CHR ''!'')
        \<and> \<not> sublist ''!3d'' (lat @ ''!4d'' @ lng @ tail)"
  show "extract_coordinates (pre @ ''!3d'' @ lat @ ''!4d'' @ lng @ tail)
        = [(''latitude'', lat), (''longitude'', lng)]"
    by (rule extract_coordinates_found)
       (use a in \<open>simp_all only: simp_thms\<close>)
qed

theorem C4_blank_page_record_witness:
  "load_error blank_page = None \<and> (\<forall>s. find_element blank_page s = NoSuchElement)
   \<and> hours_buttons blank_page = Some []
   \<and> \<not> sublist ''!3d'' ''https://www.google.com/maps/place/Acme''
   \<and> extract_business_data blank_page ''https://www.google.com/maps/place/Acme''
       = [(''url'', PStr ''https://www.google.com/maps/place/Acme''),
          (''hours'', PDict []), (''coordinates'', PDict [])]
   \<and> \<not> sublist ''!3d'' (''https://www.google.com/maps/place/Acme/data=!4m6!3m5!8m2'' @ ''!3'')
   \<and> \<not> sublist ''!4d'' ''40.7128''
   \<and> extract_coordinates
        (''https://www.google.com/maps/place/Acme/data=!4m6!3m5!8m2'' @ ''!3d'' @ ''40.7128'') = []
   \<and> \<not> sublist ''!3d'' (''40.7128'' @ ''!4d'' @ ''-74.0060'' @ ''!16s'')
   \<and> extract_coordinates
        (''https://www.google.com/maps/place/Acme/data=!4m6!3m5!8m2'' @ ''!3d'' @ ''40.7128''
           @ ''!4d'' @ ''-74.0060'' @ ''!16s'')
       = [(''latitude'', ''40.7128''), (''longitude'', ''-74.0060'')]"
proof -
  let ?url = "''https://www.google.com/maps/place/Acme''"
  let ?pre = "''https://www.google.com/maps/place/Acme/data=!4m6!3m5!8m2''"
  have h: "load_error blank_page = None \<and> (\<forall>s. find_element blank_page s = NoSuchElement)
        \<and> hours_buttons blank_page = Some []"
    by (simp add: blank_page_def)
  have n: "\<not> sublist ''!3d'' ?url" by code_simp
  have p: "\<not> sublist ''!3d'' (?pre @ ''!3'')" by code_simp
  have s: "\<not> sublist ''!4d'' ''40.7128''" by code_simp
  have l: "CHR ''!'' \<notin> set ''40.7128''" "CHR ''!'' \<notin> set ''-74.0060''" by simp_all
  have t: "''!16s'' = [] \<or> hd ''!16s'' = CHR ''!''" by simp
  have o: "\<not> sublist ''!3d'' (''40.7128'' @ ''!4d'' @ ''-74.0060'' @ ''!16s'')" by code_simp
  note inst = C4_blank_page_record
    [where page = blank_page and url = ?url and pre = ?pre and seg = "''40.7128''"
       and lat = "''40.7128''" and lng = "''-74.0060''" and tail = "''!16s''"]
  have a: "extract_business_data blank_page ?url
        = (if ?url \<noteq> [] then [(''url'', PStr ?url)] else [])
          @ [(''hours'', PDict []), (''coordinates'', PDict (extract_coordinates ?url))]"
    by (rule inst [THEN conjunct2, THEN conjunct1, THEN mp, OF h])
  have b: "extract_coordinates ?url = []"
    by (rule inst [THEN conjunct2, THEN conjunct2, THEN conjunct1, THEN mp, OF n])
  have c: "extract_coordinates (?pre @ ''!3d'' @ ''40.7128'') = []"
    by (rule inst [THEN conjunct2, THEN conjunct2, THEN conjunct2, THEN conjunct1, THEN mp])
       (intro conjI p s)
  have d: "extract_coordinates (?pre @ ''!3d'' @ ''40.7128'' @ ''!4d'' @ ''-74.0060'' @ ''!16s'')
       = [(''latitude'', ''40.7128''), (''longitude'', ''-74.0060'')]"
    by (rule inst [THEN conjunct2, THEN conjunct2, THEN conjunct2, THEN conjunct2, THEN mp])
       (intro conjI p l t o)
  from a b have e: "extract_business_data blank_page ?url
       = [(''url'', PStr ?url), (''hours'', PDict []), (''coordinates'', PDict [])]"
    by simp
  from h n e p s c o d show ?thesis by (intro conjI) simp_all
qed

text \<open>
  C4, as stated, fails: on a page where no selector matches, an address that carries
  \<^verbatim>\<open>!3d40.7128!4d-74.0060\<close> gives a record whose \<^verbatim>\<open>coordinates\<close> are not empty.
\<close>

theorem C4_coordinates_from_address:
  "extract_business_data blank_page
     ''https://www.google.com/maps/place/Acme/data=!4m6!3m5!8m2!3d40.7128!4d-74.0060!16s''
   = [(''url'', PStr ''https://www.google.com/maps/place/Acme/data=!4m6!3m5!8m2!3d40.7128!4d-74.0060!16s''),
      (''hours'', PDict []),
      (''coordinates'', PDict [(''latitude'', ''40.7128''), (''longitude'', ''-74.0060'')])]
   \<and> map_of (extract_business_data blank_page
         ''https://www.google.com/maps/place/Acme/data=!4m6!3m5!8m2!3d40.7128!4d-74.0060!16s'')
        ''coordinates'' \<noteq> Some (PDict [])"
  by code_simp

text \<open>
  C9, amended: on a page that loads and on which no driver call fails, with rating and
  review texts in ASCII: the stored rating is the first decimal token (digits, a point,
  digits; leftmost, and longest there) of the rating text, or the whole rating text when
  it holds no decimal token, and no rating is stored when the chain reads no text; the
  stored review count is the first run of digits of the review text, the first text of
  the review chain that holds a digit, and no count is stored when there is none.
\<close>

theorem C9_stored_rating_and_reviews:
  assumes "load_error page = None" and "extract_fields page url = Inr d"
    and "list_all is_ascii (chain_texts (find_element page) rating_selectors
                            @ chain_texts (find_element page) reviews_selectors)"
  shows "(case rating_text page of
            None \<Rightarrow> map_of (extract_business_data page url) ''rating'' = None
          | Some t \<Rightarrow>
              (\<exists>m. first_decimal_token t m
                 \<and> map_of (extract_business_data page url) ''rating'' = Some (PStr m))
              \<or> ((\<forall>m. decimal_token m \<longrightarrow> \<not> sublist m t)
                 \<and> map_of (extract_business_data page url) ''rating'' = Some (PStr t)))
       \<and> (case reviews_text page of
            None \<Rightarrow> map_of (extract_business_data page url) ''reviews_count'' = None
          | Some t \<Rightarrow>
              (\<exists>n. first_digit_run t n
                 \<and> map_of (extract_business_data page url) ''reviews_count'' = Some (PStr n)))"
proof -
  from assms(1,2) have e: "extract_business_data page url = d"
    by (simp add: extract_business_data_def)
  from extract_fields_entries [OF assms(2)] obtain rating reviews_count where
    r: "field_chain read_rating (find_element page) rating_selectors (PStr []) = Inr rating"
    and v: "field_chain read_reviews (find_element page) reviews_selectors (PStr []) = Inr reviews_count"
    and mr: "map_of d ''rating'' = (if truthy rating \<or> is_dict rating then Some rating else None)"
    and mv: "map_of d ''reviews_count''
           = (if truthy reviews_count \<or> is_dict reviews_count then Some reviews_count else None)"
    by blast
  have rating: "(case rating_text page of
            None \<Rightarrow> map_of d ''rating'' = None
          | Some t \<Rightarrow>
              (\<exists>m. first_decimal_token t m \<and> map_of d ''rating'' = Some (PStr m))
              \<or> ((\<forall>m. decimal_token m \<longrightarrow> \<not> sublist m t)
                 \<and> map_of d ''rating'' = Some (PStr t)))"
  proof (cases "chain_texts (find_element page) rating_selectors")
    case Nil
    with chain_rating [OF r] have "rating = PStr []" by simp
    with mr Nil show ?thesis by (simp add: rating_text_def is_dict_def)
  next
    case (Cons t ts)
    with chain_rating [OF r] have rv: "rating = PStr (rating_of_text t)" by simp
    have "t \<in> set (chain_texts (find_element page) rating_selectors)" using Cons by simp
    then have "t \<noteq> []" by (rule chain_texts_nonempty)
    then have ne: "rating_of_text t \<noteq> []" by (rule rating_of_text_nonempty)
    with rv mr have stored: "map_of d ''rating'' = Some (PStr (rating_of_text t))" by simp
    show ?thesis
    proof (cases "search_decimal t")
      case None
      with stored have "map_of d ''rating'' = Some (PStr t)" by (simp add: rating_of_text_def)
      moreover from None have "\<forall>m. decimal_token m \<longrightarrow> \<not> sublist m t"
        by (auto dest: search_decimal_absent)
      ultimately show ?thesis using Cons by (simp add: rating_text_def)
    next
      case (Some m)
      with stored have "map_of d ''rating'' = Some (PStr m)" by (simp add: rating_of_text_def)
      with search_decimal_first [OF Some] Cons show ?thesis
        by (auto simp: rating_text_def)
    qed
  qed
  have reviews: "(case reviews_text page of
            None \<Rightarrow> map_of d ''reviews_count'' = None
          | Some t \<Rightarrow>
              (\<exists>n. first_digit_run t n \<and> map_of d ''reviews_count'' = Some (PStr n)))"
  proof (cases "List.find has_digit (chain_texts (find_element page) reviews_selectors)")
    case None
    with chain_reviews [OF v] have "reviews_count = PStr []" by simp
    with mv None show ?thesis by (simp add: reviews_text_def is_dict_def)
  next
    case (Some t)
    then have "has_digit t" by (auto simp: find_Some_iff)
    then obtain n where n: "search_digits t = Some n"
      using search_digits_has_digit [of t] by (cases "search_digits t") auto
    with chain_reviews [OF v] Some have "reviews_count = PStr n" by simp
    moreover from n have "n \<noteq> []" by (rule search_digits_nonempty)
    ultimately have "map_of d ''reviews_count'' = Some (PStr n)" using mv by simp
    with search_digits_first [OF n] Some show ?thesis
      by (auto simp: reviews_text_def)
  qed
  from rating reviews show ?thesis unfolding e by simp
qed

theorem C9_stored_rating_and_reviews_witness:
  "load_error decimal_page = None
   \<and> extract_fields decimal_page ''https://www.google.com/maps/place/Acme''
       = Inr [(''url'', PStr ''https://www.google.com/maps/place/Acme''),
              (''rating'', PStr ''4.5''), (''reviews_count'', PStr ''120''),
              (''hours'', PDict []), (''coordinates'', PDict [])]
   \<and> list_all is_ascii (chain_texts (find_element decimal_page) rating_selectors
                          @ chain_texts (find_element decimal_page) reviews_selectors)
   \<and> rating_text decimal_page = Some ''Rated 4.5 of 5''
   \<and> first_decimal_token ''Rated 4.5 of 5'' ''4.5''
   \<and> map_of (extract_business_data decimal_page ''https://www.google.com/maps/place/Acme'')
        ''rating'' = Some (PStr ''4.5'')
   \<and> reviews_text decimal_page = Some ''(120 reviews)''
   \<and> first_digit_run ''(120 reviews)'' ''120''
   \<and> map_of (extract_business_data decimal_page ''https://www.google.com/maps/place/Acme'')
        ''reviews_count'' = Some (PStr ''120'')"
proof -
  let ?url = "''https://www.google.com/maps/place/Acme''"
  have h1: "load_error decimal_page = None" by (simp add: decimal_page_def)
  have h2: "extract_fields decimal_page ?url
       = Inr [(''url'', PStr ?url),
              (''rating'', PStr ''4.5''), (''reviews_count'', PStr ''120''),
              (''hours'', PDict []), (''coordinates'', PDict [])]"
    by code_simp
  have h3: "list_all is_ascii (chain_texts (find_element decimal_page) rating_selectors
                          @ chain_texts (find_element decimal_page) reviews_selectors)"
    by code_simp
  have rt: "rating_text decimal_page = Some ''Rated 4.5 of 5''" by code_simp
  have vt: "reviews_text decimal_page = Some ''(120 reviews)''" by code_simp
  have sr: "map_of (extract_business_data decimal_page ?url) ''rating'' = Some (PStr ''4.5'')"
    by code_simp
  have sv: "map_of (extract_business_data decimal_page ?url) ''reviews_count'' = Some (PStr ''120'')"
    by code_simp
  have nt: "''4.5'' \<noteq> ''Rated 4.5 of 5''" by simp
  note t = C9_stored_rating_and_reviews [OF h1 h2 h3]
  from t [THEN conjunct1] have
    "(\<exists>m. first_decimal_token ''Rated 4.5 of 5'' m
         \<and> map_of (extract_business_data decimal_page ?url) ''rating'' = Some (PStr m))
     \<or> ((\<forall>m. decimal_token m \<longrightarrow> \<not> sublist m ''Rated 4.5 of 5'')
         \<and> map_of (extract_business_data decimal_page ?url) ''rating'' = Some (PStr ''Rated 4.5 of 5''))"
    unfolding rt by simp
  then have a: "first_decimal_token ''Rated 4.5 of 5'' ''4.5''"
    unfolding sr using nt by auto
  from t [THEN conjunct2] have
    "\<exists>n. first_digit_run ''(120 reviews)'' n
         \<and> map_of (extract_business_data decimal_page ?url) ''reviews_count'' = Some (PStr n)"
    unfolding vt by simp
  then have b: "first_digit_run ''(120 reviews)'' ''120''"
    unfolding sv by auto
  from h1 h2 h3 rt a sr vt b sv show ?thesis by (intro conjI)
qed

text \<open>
  C9, as stated, fails: the rating text \<^verbatim>\<open>5 stars\<close>, whose first numeric token is
  \<^verbatim>\<open>5\<close>, is stored whole; the review text \<^verbatim>\<open>4.8 (1,234 reviews)\<close>, whose first
  numeric token is \<^verbatim>\<open>4.8\<close>, gives the count \<^verbatim>\<open>4\<close>.
\<close>

theorem C9_integer_rating_kept_whole:
  "first_numeric_token ''5 stars'' = Some ''5''
   \<and> rating_text star_page = Some ''5 stars''
   \<and> first_numeric_token ''4.8 (1,234 reviews)'' = Some ''4.8''
   \<and> reviews_text star_page = Some ''4.8 (1,234 reviews)''
   \<and> extract_business_data star_page ''https://www.google.com/maps/place/Acme''
       = [(''url'', PStr ''https://www.google.com/maps/place/Acme''), (''name'', PStr ''Acme''),
          (''rating'', PStr ''5 stars''), (''reviews_count'', PStr ''4''),
          (''hours'', PDict []), (''coordinates'', PDict [])]"
  by code_simp

section \<open>Properties of Email Discovery\<close>

lemma is_upper_code: "is_upper c \<longleftrightarrow> 65 \<le> (of_char c :: nat) \<and> (of_char c :: nat) \<le> 90"
  by (simp add: is_upper_def less_eq_char_def)

lemma lower_char_not_upper: "\<not> is_upper (lower_char c)"
proof (cases "is_upper c")
  case False
  then show ?thesis by (simp add: lower_char_def)
next
  case True
  then have "(of_char (char_of (of_char c + (32::nat)) :: char) :: nat) = of_char c + 32"
    by (simp add: is_upper_code)
  with True show ?thesis by (simp add: lower_char_def is_upper_code)
qed

lemma lowercase_lower: "lowercase (lower s)"
  by (simp add: lowercase_def lower_def list_all_iff lower_char_not_upper)

lemma lower_lowercase: "lowercase s \<Longrightarrow> lower s = s"
  by (simp add: lowercase_def lower_def list_all_iff lower_char_def map_idI)

lemma lowercase_local_part: "lowercase s \<Longrightarrow> lowercase (local_part s)"
  by (auto simp: lowercase_def local_part_def list_all_iff dest: set_takeWhileD)

lemma set_priority_prefixes: "set priority_prefixes = set role_prefixes"
  by (auto simp: priority_prefixes_def role_prefixes_def)

lemma email_sort_key_lowercase:
  "lowercase (local_part e) \<Longrightarrow> email_sort_key e = (if role_address e then 0 else 1, e)"
  by (simp add: email_sort_key_def Let_def hd_split_on list_ex_iff local_part_def [symmetric]
      lower_lowercase set_priority_prefixes role_address_def)

lemma key_le_role_first:
  assumes "lowercase (local_part a)" "lowercase (local_part b)"
  shows "email_sort_key a \<le> email_sort_key b \<longleftrightarrow> role_first a b"
  using assms by (auto simp: email_sort_key_lowercase role_first_def)

lemma sorted_emails_role_first:
  assumes "\<forall>e \<in> set es. lowercase (local_part e)"
  shows "sorted_wrt role_first (sorted_emails es)"
proof -
  have "sorted (map email_sort_key (sorted_emails es))"
    by (simp add: sorted_emails_def)
  then have "sorted_wrt (\<lambda>a b. email_sort_key a \<le> email_sort_key b) (sorted_emails es)"
    by (simp add: sorted_map)
  moreover have "set (sorted_emails es) = set es" by (simp add: sorted_emails_def)
  ultimately show ?thesis
    using assms by (auto intro!: sorted_wrt_mono_rel [where P = "\<lambda>a b. email_sort_key a \<le> email_sort_key b"] simp: key_le_role_first)
qed

lemma find_emails_fold_inv:
  assumes "\<And>x. Q (lower x)" and "\<forall>e \<in> set acc. Q e"
  shows "\<forall>e \<in> set (fold (\<lambda>email emails.
             if \<not> list_ex (\<lambda>domain. suffix domain (lower email)) non_email_suffixes
             then List.insert (lower email) emails else emails) found acc). Q e"
  using assms(2)
proof (induction found arbitrary: acc)
  case Nil
  then show ?case by simp
next
  case (Cons a found)
  have "\<forall>e \<in> set (if \<not> list_ex (\<lambda>domain. suffix domain (lower a)) non_email_suffixes
             then List.insert (lower a) acc else acc). Q e"
    using Cons.prems assms(1) by auto
  from Cons.IH [OF this] show ?case by simp
qed

lemma find_emails_on_page_lowercase: "\<forall>e \<in> set (find_emails_on_page found). lowercase e"
  unfolding find_emails_on_page_def by (rule find_emails_fold_inv) (simp_all add: lowercase_lower)

lemma find_emails_fold_distinct:
  "distinct acc \<Longrightarrow> distinct (fold (\<lambda>email emails.
             if \<not> list_ex (\<lambda>domain. suffix domain (lower email)) non_email_suffixes
             then List.insert (lower email) emails else emails) found acc)"
  by (induction found arbitrary: acc) auto

declare crawl_loop.simps [simp del]

lemma crawl_loop_all_emails:
  assumes step: "\<And>(p :: page) es. Q es \<Longrightarrow> Q (List.union (find_emails_on_page (found_emails p)) es)"
  shows "Q (all_emails s) \<Longrightarrow> Q (all_emails (crawl_loop web domain max_pages s))"
proof (induction web domain max_pages s rule: crawl_loop.induct)
  case (1 web domain max_pages s)
  show ?case
  proof (cases "urls_to_visit s")
    case Nil
    with "1.prems" show ?thesis by (subst crawl_loop.simps) simp
  next
    case (Cons current_url rest)
    show ?thesis
    proof (cases "page_count s < max_pages")
      case False
      with Cons "1.prems" show ?thesis by (subst crawl_loop.simps) simp
    next
      case lt: True
      show ?thesis
      proof (cases "current_url \<in> set (visited_urls s)")
        case True
        with Cons lt "1.prems" "1.IH"(1) [OF Cons _ True] show ?thesis
          by (subst crawl_loop.simps) simp
      next
        case nv: False
        let ?s1 = "s\<lparr>urls_to_visit := rest,
                        visited_urls := visited_urls s @ [current_url],
                        page_count := Suc (page_count s)\<rparr>"
        show ?thesis
        proof (cases "web current_url")
          case RequestException
          with Cons lt nv "1.prems" "1.IH"(2) [OF Cons _ nv refl RequestException]
          show ?thesis by (subst crawl_loop.simps) simp
        next
          case (Response p)
          let ?s2 = "?s1\<lparr>all_emails :=
                        List.union (find_emails_on_page (found_emails p)) (all_emails ?s1)\<rparr>"
          have q2: "Q (all_emails ?s2)" using step [OF "1.prems"] by simp
          show ?thesis
          proof (cases "page_count ?s2 = 1")
            case False
            with Cons lt nv Response q2 "1.IH"(4) [OF Cons _ nv refl Response refl False]
            show ?thesis by (subst crawl_loop.simps) (simp add: Let_def)
          next
            case one: True
            obtain err urls where sc:
              "scan_links domain (visited_urls ?s2) (anchors p) None (urls_to_visit ?s2) = (err, urls)"
              by (cases "scan_links domain (visited_urls ?s2) (anchors p) None (urls_to_visit ?s2)")
            show ?thesis
            proof (cases err)
              case (Some e)
              with Cons lt nv Response q2 one sc show ?thesis
                by (subst crawl_loop.simps) (simp add: Let_def)
            next
              case None
              with Cons lt nv Response q2 one sc
                "1.IH"(3) [OF Cons _ nv refl Response refl one sc [unfolded None, symmetric] refl]
              show ?thesis by (subst crawl_loop.simps) (simp add: Let_def)
            qed
          qed
        qed
      qed
    qed
  qed
qed

lemma scrape_lowercase: "\<forall>e \<in> set (scrape_website_for_emails web url n). lowercase e"
  unfolding scrape_website_for_emails_def scrape_crawl_def Let_def
  by (rule crawl_loop_all_emails) (use find_emails_on_page_lowercase in auto)

lemma find_emails_on_page_distinct: "distinct (find_emails_on_page found)"
  unfolding find_emails_on_page_def by (rule find_emails_fold_distinct) simp

lemma scrape_distinct: "distinct (scrape_website_for_emails web url n)"
  unfolding scrape_website_for_emails_def scrape_crawl_def Let_def
  by (rule crawl_loop_all_emails) simp_all

lemma local_part_at: "CHR ''@'' \<notin> set p \<Longrightarrow> local_part (p @ CHR ''@'' # d) = p"
  by (induction p) (auto simp: local_part_def)

lemma common_prefixes_plain:
  "\<forall>p \<in> set common_prefixes. CHR ''@'' \<notin> set p \<and> lowercase p"
  by (simp add: common_prefixes_def lowercase_def is_upper_def)

lemma clean_name_plain:
  "CHR ''@'' \<notin> set (filter is_alnum (lower name)) \<and> lowercase (filter is_alnum (lower name))"
proof -
  have "\<not> is_alnum CHR ''@''"
    by (simp add: is_alnum_def is_lower_def is_upper_def is_digit_def)
  moreover have "lowercase (lower name)" by (rule lowercase_lower)
  ultimately show ?thesis by (auto simp: lowercase_def list_all_iff)
qed

lemma name_emails_lowercase:
  assumes "name_emails domain business_name = Inr named"
  shows "\<forall>e \<in> set named. lowercase (local_part e)"
proof (cases "truthy business_name")
  case False
  with assms show ?thesis by (simp add: name_emails_def)
next
  case True
  with assms obtain name where n: "business_name = PStr name"
    by (cases business_name) (simp_all add: name_emails_def)
  let ?c = "filter is_alnum (lower name)"
  have c: "local_part (?c @ ''@'' @ domain) = ?c" "lowercase ?c"
    using clean_name_plain [of name] by (simp_all add: local_part_at)
  have i: "local_part (''info@'' @ ?c @ ''.'' @ last (split_on CHR ''.'' domain)) = ''info''"
    by (simp add: local_part_def)
  have "lowercase ''info''" by (simp add: lowercase_def is_upper_def)
  with assms True n c i show ?thesis
    by (auto simp: name_emails_def Let_def split: if_splits)
qed

lemma generate_common_emails_lowercase:
  assumes "generate_common_emails domain business_name None = Inr generated"
  shows "\<forall>e \<in> set generated. lowercase (local_part e)"
proof (cases "domain = []")
  case True
  with assms show ?thesis by (simp add: generate_common_emails_def)
next
  case False
  with assms obtain named where n: "name_emails domain business_name = Inr named"
    and g: "generated = map (\<lambda>prefix. prefix @ ''@'' @ domain) common_prefixes @ named"
    by (auto simp: generate_common_emails_def owner_emails_def split: sum.splits)
  have "\<forall>e \<in> set (map (\<lambda>prefix. prefix @ ''@'' @ domain) common_prefixes). lowercase (local_part e)"
    using common_prefixes_plain by (auto simp: local_part_at)
  with name_emails_lowercase [OF n] g show ?thesis by auto
qed

lemma if_nonempty: "(if xs \<noteq> [] then xs else []) = xs"
  by simp

lemma collect_emails_lowercase:
  assumes "collect_emails web business_data = Inr emails"
  shows "\<forall>e \<in> set emails. lowercase (local_part e)"
proof (cases "truthy (dict_get business_data ''website'' PNone)")
  case False
  with assms show ?thesis by (simp add: collect_emails_def Let_def)
next
  case True
  with assms obtain url where u: "dict_get business_data ''website'' PNone = PStr url"
    by (cases "dict_get business_data ''website'' PNone") (simp_all add: collect_emails_def Let_def)
  have s: "\<forall>e \<in> set (scrape_website_for_emails web url 3). lowercase (local_part e)"
    using scrape_lowercase [of web url 3] by (auto intro: lowercase_local_part)
  show ?thesis
  proof (cases "extract_domain_from_url url")
    case None
    with assms True u s show ?thesis by (auto simp: collect_emails_def Let_def if_nonempty)
  next
    case (Some domain)
    show ?thesis
    proof (cases "domain = []")
      case True
      with assms \<open>truthy _\<close> u s Some show ?thesis
        by (auto simp: collect_emails_def Let_def if_nonempty)
    next
      case False
      with assms True u Some obtain generated where
        g: "generate_common_emails domain (dict_get business_data ''name'' (PStr [])) None = Inr generated"
        and e: "emails = (if scrape_website_for_emails web url 3 = [] \<and> generated \<noteq> []
                 then scrape_website_for_emails web url 3 @ generated
                 else scrape_website_for_emails web url 3)"
        by (auto simp: collect_emails_def Let_def if_nonempty split: sum.splits if_splits)
      from generate_common_emails_lowercase [OF g] s e show ?thesis by auto
    qed
  qed
qed

lemma enrich_emails_of:
  "emails_of (enrich_business_data_with_emails web bd)
     = (case collect_emails web bd of Inr es \<Rightarrow> sorted_emails es | Inl e \<Rightarrow> [])"
  by (auto simp: emails_of_def enrich_business_data_with_emails_def with_emails_def update_conv'
      Let_def sorted_emails_def split: sum.splits)

text \<open>
  C2: in every record returned by e-mail enrichment, the list under \<^verbatim>\<open>emails\<close> is a
  rearrangement of the addresses collected, in which an address whose local part is one of
  \<^verbatim>\<open>contact, info, hello, support, admin, sales\<close> precedes every other address and
  addresses of the same kind are in lexicographic order; \<^verbatim>\<open>primary_email\<close> is the first
  element of that list, or \<^verbatim>\<open>None\<close> when the list is empty. For the addresses
  \<^verbatim>\<open>zeta@x.com, info@x.com, contact@x.com\<close> the list is
  \<^verbatim>\<open>contact@x.com, info@x.com, zeta@x.com\<close> and the primary address \<^verbatim>\<open>contact@x.com\<close>.
  (The source compares the lower-cased local part; every address enrichment collects has a
  local part without capitals, so this is the comparison of the specification.)
\<close>

theorem C2_enriched_emails_sorted:
  "sorted_wrt role_first (emails_of (enrich_business_data_with_emails web bd))
   \<and> mset (emails_of (enrich_business_data_with_emails web bd))
       = mset (case collect_emails web bd of Inr es \<Rightarrow> es | Inl e \<Rightarrow> [])
   \<and> map_of (enrich_business_data_with_emails web bd) ''emails''
       = Some (PList (emails_of (enrich_business_data_with_emails web bd)))
   \<and> map_of (enrich_business_data_with_emails web bd) ''primary_email''
       = Some (case emails_of (enrich_business_data_with_emails web bd) of
                 [] \<Rightarrow> PNone | e # _ \<Rightarrow> PStr e)
   \<and> sorted_emails [''zeta@x.com'', ''info@x.com'', ''contact@x.com'']
       = [''contact@x.com'', ''info@x.com'', ''zeta@x.com'']
   \<and> enrich_business_data_with_emails x_site [(''website'', PStr ''https://x.com'')]
       = [(''website'', PStr ''https://x.com''),
          (''emails'', PList [''contact@x.com'', ''info@x.com'', ''zeta@x.com'']),
          (''primary_email'', PStr ''contact@x.com'')]"
proof -
  have 1: "sorted_wrt role_first (emails_of (enrich_business_data_with_emails web bd))"
  proof (cases "collect_emails web bd")
    case (Inl e)
    then show ?thesis by (simp add: enrich_emails_of)
  next
    case (Inr es)
    with collect_emails_lowercase [OF Inr] show ?thesis
      by (simp add: enrich_emails_of sorted_emails_role_first)
  qed
  have 2: "mset (emails_of (enrich_business_data_with_emails web bd))
       = mset (case collect_emails web bd of Inr es \<Rightarrow> es | Inl e \<Rightarrow> [])"
    by (simp add: enrich_emails_of sorted_emails_def split: sum.splits)
  have 3: "map_of (enrich_business_data_with_emails web bd) ''emails''
       = Some (PList (emails_of (enrich_business_data_with_emails web bd)))"
    by (auto simp: emails_of_def enrich_business_data_with_emails_def with_emails_def update_conv'
      Let_def sorted_emails_def split: sum.splits)
  have 4: "map_of (enrich_business_data_with_emails web bd) ''primary_email''
       = Some (case emails_of (enrich_business_data_with_emails web bd) of
                 [] \<Rightarrow> PNone | e # _ \<Rightarrow> PStr e)"
    unfolding enrich_emails_of
    by (auto simp: enrich_business_data_with_emails_def with_emails_def update_conv'
      Let_def sorted_emails_def split: sum.splits)
  have 5: "sorted_emails [''zeta@x.com'', ''info@x.com'', ''contact@x.com'']
       = [''contact@x.com'', ''info@x.com'', ''zeta@x.com'']"
    by code_simp
  have 6: "enrich_business_data_with_emails x_site [(''website'', PStr ''https://x.com'')]
       = [(''website'', PStr ''https://x.com''),
          (''emails'', PList [''contact@x.com'', ''info@x.com'', ''zeta@x.com'']),
          (''primary_email'', PStr ''contact@x.com'')]"
    by code_simp
  from 1 2 3 4 5 6 show ?thesis by blast
qed

lemma resolve_link_stale:
  "resolve_link domain href contact_url = Inr (Some u) \<Longrightarrow>
     resolve_link domain href None = Inr (Some u)
     \<or> (resolve_link domain href None = Inr None \<and> contact_url = Some u)"
  by (auto simp: resolve_link_def split: if_splits option.splits)

lemma link_targets_Cons:
  "link_targets domain (link # links)
     = (case link_target domain link of None \<Rightarrow> [] | Some u \<Rightarrow> [u]) @ link_targets domain links"
  by (simp add: link_targets_def map_filter_simps split: option.splits)

lemma scan_links_set:
  assumes "\<forall>c. contact_url = Some c \<longrightarrow> c \<in> set visited \<union> set urls"
    and "scan_links domain visited links contact_url urls = (None, urls')"
  shows "set urls' = set urls \<union> (set (link_targets domain links) - set visited)"
  using assms
proof (induction links arbitrary: contact_url urls)
  case Nil
  then show ?case by (simp add: link_targets_def map_filter_simps)
next
  case (Cons link links)
  show ?case
  proof (cases "is_contact_link link")
    case False
    then have "link_target domain link = None" by (simp add: link_target_def)
    with False Cons.prems Cons.IH [of contact_url urls] show ?thesis
      by (simp add: link_targets_Cons)
  next
    case True
    with Cons.prems(2) obtain u where
      r: "resolve_link domain (anchor_href link) contact_url = Inr (Some u)"
      by (auto split: sum.splits option.splits)
    let ?urls = "if u \<notin> set visited \<and> u \<notin> set urls then urls @ [u] else urls"
    from True r Cons.prems(2) have run: "scan_links domain visited links (Some u) ?urls = (None, urls')"
      by simp
    have inv: "\<forall>c. Some u = Some c \<longrightarrow> c \<in> set visited \<union> set ?urls" by auto
    from Cons.IH [OF inv run]
    have ih: "set urls' = set ?urls \<union> (set (link_targets domain links) - set visited)" .
    from resolve_link_stale [OF r] show ?thesis
    proof
      assume "resolve_link domain (anchor_href link) None = Inr (Some u)"
      with True have "link_target domain link = Some u" by (simp add: link_target_def)
      with ih show ?thesis by (auto simp: link_targets_Cons)
    next
      assume st: "resolve_link domain (anchor_href link) None = Inr None \<and> contact_url = Some u"
      with True have "link_target domain link = None" by (simp add: link_target_def)
      moreover from st Cons.prems(1) have "u \<in> set visited \<union> set urls" by simp
      ultimately show ?thesis using ih by (auto simp: link_targets_Cons)
    qed
  qed
qed

lemma crawl_loop_no_enqueue:
  "1 \<le> page_count s \<Longrightarrow>
     set (urls_to_visit (crawl_loop web domain max_pages s)) \<subseteq> set (urls_to_visit s)"
proof (induction web domain max_pages s rule: crawl_loop.induct)
  case (1 web domain max_pages s)
  show ?case
  proof (cases "urls_to_visit s")
    case Nil
    then show ?thesis by (subst crawl_loop.simps) simp
  next
    case (Cons current_url rest)
    show ?thesis
    proof (cases "page_count s < max_pages")
      case False
      with Cons show ?thesis by (subst crawl_loop.simps) simp
    next
      case lt: True
      show ?thesis
      proof (cases "current_url \<in> set (visited_urls s)")
        case True
        with Cons lt "1.prems" "1.IH"(1) [OF Cons _ True] show ?thesis
          by (subst crawl_loop.simps) auto
      next
        case nv: False
        show ?thesis
        proof (cases "web current_url")
          case RequestException
          with Cons lt nv "1.prems" "1.IH"(2) [OF Cons _ nv refl RequestException]
          show ?thesis by (subst crawl_loop.simps) auto
        next
          case (Response p)
          with Cons lt nv "1.prems" "1.IH"(4) [OF Cons _ nv refl Response refl]
          show ?thesis by (subst crawl_loop.simps) (auto simp: Let_def)
        qed
      qed
    qed
  qed
qed

lemma scrape_crawl_first_page:
  assumes "web url = Response p"
  shows "urls_to_visit (scrape_crawl web url 1)
     = snd (scan_links (crawl_domain url) [url] (anchors p) None [])"
proof -
  obtain err urls where sc: "scan_links (crawl_domain url) [url] (anchors p) None [] = (err, urls)"
    by (cases "scan_links (crawl_domain url) [url] (anchors p) None []")
  show ?thesis
    unfolding scrape_crawl_def Let_def
    apply (subst crawl_loop.simps)
    using assms sc
    apply (simp add: Let_def)
    apply (cases err)
     apply simp
     apply (subst crawl_loop.simps)
     apply (simp split: list.splits)
    apply simp
    done
qed

text \<open>
  C5: the e-mails of a record are meant to be free of duplicates, and those that come from
  the crawl are (\<open>scrape_distinct\<close>: they pass through a set). The generated ones are
  not: for the business Acme at \<^verbatim>\<open>acme.com\<close>, whose site yields no address, the role
  prefix \<^verbatim>\<open>info\<close> and the name-derived \<^verbatim>\<open>info@acme.com\<close> give the same address twice.
\<close>

theorem C5_generated_emails_repeat:
  "collect_emails offline acme
     = Inr (map (\<lambda>prefix. prefix @ ''@acme.com'') common_prefixes
            @ [''acme@acme.com'', ''info@acme.com''])
   \<and> count_list (emails_of (enrich_business_data_with_emails offline acme)) ''info@acme.com'' = 2
   \<and> \<not> distinct (emails_of (enrich_business_data_with_emails offline acme))"
  by code_simp

text \<open>
  C6, as stated, fails: a record without a website, for which nothing is discovered and
  nothing generated, comes back with the key \<^verbatim>\<open>emails\<close> bound to the empty list, and the
  key is among those serialized.
\<close>

theorem C6_empty_emails_kept:
  "collect_emails offline no_website = Inr []
   \<and> enrich_business_data_with_emails offline no_website
       = [(''url'', PStr ''https://maps.example/place/acme''), (''name'', PStr ''Acme''),
          (''emails'', PList []), (''primary_email'', PNone)]
   \<and> ''emails'' \<in> set (serialized_keys (enrich_business_data_with_emails offline no_website))"
  by code_simp

text \<open>
  C6, amended: after e-mail enrichment, a record for which no e-mails were discovered and
  none were generated carries \<^verbatim>\<open>emails\<close> bound to the empty list and \<^verbatim>\<open>primary_email\<close>
  bound to \<^verbatim>\<open>None\<close>; the entries are kept, not omitted.
\<close>

theorem C6_empty_emails_entry:
  assumes "collect_emails web business_data = Inr []"
  shows "map_of (enrich_business_data_with_emails web business_data) ''emails'' = Some (PList [])
    \<and> map_of (enrich_business_data_with_emails web business_data) ''primary_email'' = Some PNone
    \<and> ''emails'' \<in> set (serialized_keys (enrich_business_data_with_emails web business_data))"
proof -
  have e: "map_of (enrich_business_data_with_emails web business_data) ''emails'' = Some (PList [])"
    and p: "map_of (enrich_business_data_with_emails web business_data) ''primary_email'' = Some PNone"
    using assms by (simp_all add: enrich_business_data_with_emails_def with_emails_def update_conv')
  from e have "(''emails'', PList []) \<in> set (enrich_business_data_with_emails web business_data)"
    by (rule map_of_SomeD)
  then have "''emails'' \<in> set (serialized_keys (enrich_business_data_with_emails web business_data))"
    unfolding serialized_keys_def by (simp add: image_iff) (rule bexI [where x = "(''emails'', PList [])"], simp_all)
  with e p show ?thesis by simp
qed

theorem C6_empty_emails_entry_witness:
  "collect_emails offline no_website = Inr []
   \<and> map_of (enrich_business_data_with_emails offline no_website) ''emails'' = Some (PList [])
   \<and> map_of (enrich_business_data_with_emails offline no_website) ''primary_email'' = Some PNone
   \<and> ''emails'' \<in> set (serialized_keys (enrich_business_data_with_emails offline no_website))"
proof -
  have h: "collect_emails offline no_website = Inr []" by code_simp
  from C6_empty_emails_entry [OF h] h show ?thesis by simp
qed

text \<open>
  C7: the address is meant to get its scheme before any page is fetched, and the source
  does prefix it, but only after the frontier has been seeded with the address as given.
  For \<^verbatim>\<open>example.com\<close> the one request made is for \<^verbatim>\<open>example.com\<close>; the page at
  \<^verbatim>\<open>https://example.com\<close>, which holds an address, is never fetched, although the crawl
  started from \<^verbatim>\<open>https://example.com\<close> finds it.
\<close>

theorem C7_first_fetch_without_scheme:
  "add_scheme ''example.com'' = ''https://example.com''
   \<and> visited_urls (scrape_crawl example_site ''example.com'' 3) = [''example.com'']
   \<and> scrape_website_for_emails example_site ''example.com'' 3 = []
   \<and> scrape_website_for_emails example_site ''https://example.com'' 3 = [''owner@example.com'']"
  by code_simp

text \<open>
  C8, as stated, fails: a first page with a contact link and an about link puts both on
  the frontier, and both are fetched.
\<close>

theorem C8_every_match_enqueued:
  "urls_to_visit (scrape_crawl example_site ''https://example.com'' 1)
     = [''https://example.com/contact'', ''https://example.com/about'']
   \<and> visited_urls (scrape_crawl example_site ''https://example.com'' 3)
     = [''https://example.com'', ''https://example.com/contact'', ''https://example.com/about'']"
  by code_simp

text \<open>
  C8, amended: anchors are scanned only while the first page is processed (once a page
  has been counted, the crawl adds nothing to the frontier), and a scan that completes
  has put on the frontier the resolved address of every same-domain anchor that mentions
  \<^verbatim>\<open>contact\<close> or \<^verbatim>\<open>about\<close> and was not yet visited or queued, not only the first. The
  frontier after the first page is the one that scan leaves.
\<close>

theorem C8_links_enqueued_on_first_page:
  "(1 \<le> page_count s \<longrightarrow>
      set (urls_to_visit (crawl_loop web domain max_pages s)) \<subseteq> set (urls_to_visit s))
   \<and> (scan_links domain visited links None urls = (None, urls') \<longrightarrow>
      set urls' = set urls \<union> (set (link_targets domain links) - set visited))
   \<and> (web url = Response p \<longrightarrow>
      urls_to_visit (scrape_crawl web url 1)
        = snd (scan_links (crawl_domain url) [url] (anchors p) None []))"
  using crawl_loop_no_enqueue [of s web domain max_pages]
    scan_links_set [of None visited urls domain links urls']
    scrape_crawl_first_page [of web url p]
  by simp

theorem C8_links_enqueued_on_first_page_witness:
  "set (urls_to_visit (crawl_loop example_site ''example.com'' 3
          \<lparr>all_emails = [], visited_urls = [''https://example.com''],
           urls_to_visit = [''https://example.com/contact''], page_count = 1\<rparr>))
     \<subseteq> {''https://example.com/contact''}
   \<and> scan_links ''example.com'' [''https://example.com'']
        [\<lparr>anchor_href = ''/contact'', anchor_text = ''Contact''\<rparr>,
         \<lparr>anchor_href = ''/about'', anchor_text = ''About us''\<rparr>] None []
       = (None, [''https://example.com/contact'', ''https://example.com/about''])
   \<and> set [''https://example.com/contact'', ''https://example.com/about'']
       = set (link_targets ''example.com''
                [\<lparr>anchor_href = ''/contact'', anchor_text = ''Contact''\<rparr>,
                 \<lparr>anchor_href = ''/about'', anchor_text = ''About us''\<rparr>])
              - {''https://example.com''}
   \<and> urls_to_visit (scrape_crawl example_site ''https://example.com'' 1)
       = snd (scan_links (crawl_domain ''https://example.com'') [''https://example.com'']
                [\<lparr>anchor_href = ''/contact'', anchor_text = ''Contact''\<rparr>,
                 \<lparr>anchor_href = ''/about'', anchor_text = ''About us''\<rparr>] None [])"
proof -
  let ?links = "[\<lparr>anchor_href = ''/contact'', anchor_text = ''Contact''\<rparr>,
                 \<lparr>anchor_href = ''/about'', anchor_text = ''About us''\<rparr>]"
  let ?s = "\<lparr>all_emails = [], visited_urls = [''https://example.com''],
           urls_to_visit = [''https://example.com/contact''], page_count = 1\<rparr>"
  let ?p = "\<lparr>found_emails = [''owner@example.com''], anchors = ?links\<rparr>"
  have h1: "1 \<le> page_count ?s" by simp
  have h2: "scan_links ''example.com'' [''https://example.com''] ?links None []
       = (None, [''https://example.com/contact'', ''https://example.com/about''])"
    by code_simp
  have h3: "example_site ''https://example.com'' = Response ?p"
    by (simp add: example_site_def)
  note t = C8_links_enqueued_on_first_page
    [where s = ?s and web = example_site and domain = "''example.com''" and max_pages = 3
       and visited = "[''https://example.com'']" and links = ?links and urls = "[]"
       and urls' = "[''https://example.com/contact'', ''https://example.com/about'']"
       and url = "''https://example.com''" and p = ?p]
  have a: "set (urls_to_visit (crawl_loop example_site ''example.com'' 3 ?s))
             \<subseteq> set (urls_to_visit ?s)"
    by (rule t [THEN conjunct1, THEN mp, OF h1])
  have b: "set [''https://example.com/contact'', ''https://example.com/about'']
       = set [] \<union> (set (link_targets ''example.com'' ?links) - set [''https://example.com''])"
    by (rule t [THEN conjunct2, THEN conjunct1, THEN mp, OF h2])
  have c: "urls_to_visit (scrape_crawl example_site ''https://example.com'' 1)
       = snd (scan_links (crawl_domain ''https://example.com'') [''https://example.com'']
                (anchors ?p) None [])"
    by (rule t [THEN conjunct2, THEN conjunct2, THEN mp, OF h3])
  from a have a': "set (urls_to_visit (crawl_loop example_site ''example.com'' 3 ?s))
     \<subseteq> {''https://example.com/contact''}" by simp
  from b have b': "set [''https://example.com/contact'', ''https://example.com/about'']
       = set (link_targets ''example.com'' ?links) - {''https://example.com''}" by simp
  from c have c': "urls_to_visit (scrape_crawl example_site ''https://example.com'' 1)
       = snd (scan_links (crawl_domain ''https://example.com'') [''https://example.com'']
                ?links None [])" by simp
  from a' h2 b' c' show ?thesis by (intro conjI)
qed








end
